theory Spec2Isabelle
  imports Main "HOL-Library.Word"
begin

unbundle bit_operations_syntax

section \<open>TinyTIFF-Cxx reader: a shallow embedding of tiff\_cxx.cpp\<close>

text \<open>
  The theory follows the source file top down: the enumerations, \<open>util\<close>
  (host byte order, range overlap, byte swapping), the stream the reader owns, the
  records \<open>ReaderFrame\<close>, \<open>ReaderFile\<close>, \<open>IFD\<close> and \<open>ReaderPrivate\<close>,
  the directory entry decoder \<open>read_ifd\<close>, the frame decoder \<open>read_next_frame\<close>,
  the sample extractor \<open>get_sample_data_internal\<close>, \<open>open\<close>, and the public
  \<open>Reader\<close> facade.

  Conventions. Fixed-width integers are words (\<open>uint8_t\<close> is \<open>8 word\<close>, and so on);
  an \<open>enum class\<close> that the source fills by a cast from a file value is kept as a word
  of its underlying type, with the enumerators as named constants, since the cast can
  produce values outside the enumerators. The host is a little-endian LP64 machine:
  \<open>unsigned long\<close> is \<open>64 word\<close> and an object's bytes are read least significant
  byte first.
\<close>

subsection \<open>Enumerations\<close>

datatype ByteOrder = Unknown | BigEndian | LittleEndian

datatype Error =
    NoError
  | FormatNotSupport
  | CompressionNotSupport
  | TiledNotSupport
  | OrientationNotSupport
  | PhotometricInterpretationNotSupport
  | MultiSampleSizeNotSupport
  | InvalidImageSize
  | InvalidBitPerSample
  | InvalidTiffByteOrder
  | InvalidTiffMagicNumber
  | NoMoreImagesInTiff
  | StripDataLost
  | OpenFileFailed
  | ReaderIsNotGoodYet

subsection \<open>util: byte swapping\<close>

text \<open>The primary template \<open>byte_swap<value_t>\<close> is the identity; \<open>read<uint8_t>\<close>
  uses it.\<close>

definition byte_swap8 :: "8 word \<Rightarrow> 8 word" where
  "byte_swap8 n = n"

text \<open>\<open>(n >> 8) | (n << 8)\<close> on a \<open>uint16_t\<close>: both operands are promoted to
  \<open>int\<close> (32 bits; the value stays below \<open>2^24\<close>), and the result is converted back
  to 16 bits on return.\<close>

definition byte_swap16 :: "16 word \<Rightarrow> 16 word" where
  "byte_swap16 n = ucast (drop_bit 8 (ucast n :: 32 word) OR push_bit 8 (ucast n :: 32 word))"

definition byte_swap32 :: "32 word \<Rightarrow> 32 word" where
  "byte_swap32 n =
       push_bit 24 (n AND 0x000000FF)
     + push_bit 8 (n AND 0x0000FF00)
     + drop_bit 8 (n AND 0x00FF0000)
     + drop_bit 24 (n AND 0xFF000000)"

definition byte_swap64 :: "64 word \<Rightarrow> 64 word" where
  "byte_swap64 n =
       push_bit 56 (n AND 0x00000000000000FF)
     + push_bit 40 (n AND 0x000000000000FF00)
     + push_bit 24 (n AND 0x0000000000FF0000)
     + push_bit 8 (n AND 0x00000000FF000000)
     + drop_bit 8 (n AND 0x000000FF00000000)
     + drop_bit 24 (n AND 0x0000FF0000000000)
     + drop_bit 40 (n AND 0x00FF000000000000)
     + drop_bit 56 (n AND 0xFF00000000000000)"

subsection \<open>Byte swapping is an involution\<close>

text \<open>The 32- and 64-bit swaps add masked and shifted bytes. The summands occupy
  disjoint bit positions, so each sum is a bitwise disjunction; from there the swaps
  are described bit by bit.\<close>

lemma add_is_or:
  fixes a b :: "'a::len word"
  assumes "\<And>k. k < LENGTH('a) \<Longrightarrow> \<not> (bit a k \<and> bit b k)"
  shows "a + b = a OR b"
proof (rule disjunctive_add)
  fix k
  show "\<not> bit a k \<or> \<not> bit b k"
    using assms [of k] by (cases "k < LENGTH('a)") (auto dest: bit_imp_le_length)
qed

lemma byte_masks32:
  "(0x000000FF :: 32 word) = mask 8"
  "(0x0000FF00 :: 32 word) = push_bit 8 (mask 8)"
  "(0x00FF0000 :: 32 word) = push_bit 16 (mask 8)"
  "(0xFF000000 :: 32 word) = push_bit 24 (mask 8)"
  by (simp_all add: mask_eq_exp_minus_1)

lemma byte_swap32_or:
  "byte_swap32 n =
     ((push_bit 24 (n AND mask 8)
       OR push_bit 8 (n AND push_bit 8 (mask 8)))
       OR drop_bit 8 (n AND push_bit 16 (mask 8)))
       OR drop_bit 24 (n AND push_bit 24 (mask 8))"
proof -
  let ?a = "push_bit 24 (n AND mask 8)"
  let ?b = "push_bit 8 (n AND push_bit 8 (mask 8))"
  let ?c = "drop_bit 8 (n AND push_bit 16 (mask 8))"
  let ?d = "drop_bit 24 (n AND push_bit 24 (mask 8))"
  have 1: "?a + ?b = ?a OR ?b"
    by (rule add_is_or) (auto simp add: bit_simps)
  have 2: "(?a OR ?b) + ?c = (?a OR ?b) OR ?c"
    by (rule add_is_or) (auto simp add: bit_simps)
  have 3: "((?a OR ?b) OR ?c) + ?d = ((?a OR ?b) OR ?c) OR ?d"
    by (rule add_is_or) (auto simp add: bit_simps)
  show ?thesis
    unfolding byte_swap32_def byte_masks32 by (simp only: 1 2 3)
qed

lemma bit_byte_swap32:
  "bit (byte_swap32 x) k =
     (if k < 8 then bit x (k + 24)
      else if k < 16 then bit x (k + 8)
      else if k < 24 then bit x (k - 8)
      else if k < 32 then bit x (k - 24)
      else False)"
  unfolding byte_swap32_or
  apply (simp add: bit_simps)
  apply (intro conjI impI)
  apply (auto simp add: add.commute dest: bit_imp_le_length)
  done

lemma byte_swap32_involution: "byte_swap32 (byte_swap32 x) = x"
proof (rule bit_word_eqI)
  fix n
  assume "n < LENGTH(32)"
  then consider "n < 8" | "8 \<le> n" "n < 16" | "16 \<le> n" "n < 24" | "24 \<le> n" "n < 32"
    by fastforce
  then show "bit (byte_swap32 (byte_swap32 x)) n = bit x n"
    by cases (auto simp add: bit_byte_swap32)
qed

lemma bit_byte_swap16:
  "bit (byte_swap16 x) k =
     (if k < 8 then bit x (k + 8) else if k < 16 then bit x (k - 8) else False)"
  unfolding byte_swap16_def
  by (auto simp add: bit_simps add.commute dest: bit_imp_le_length)

lemma byte_swap16_involution: "byte_swap16 (byte_swap16 x) = x"
proof (rule bit_word_eqI)
  fix n
  assume "n < LENGTH(16)"
  then consider "n < 8" | "8 \<le> n" "n < 16"
    by fastforce
  then show "bit (byte_swap16 (byte_swap16 x)) n = bit x n"
    by cases (auto simp add: bit_byte_swap16)
qed

lemma byte_masks64:
  "(0x00000000000000FF :: 64 word) = mask 8"
  "(0x000000000000FF00 :: 64 word) = push_bit 8 (mask 8)"
  "(0x0000000000FF0000 :: 64 word) = push_bit 16 (mask 8)"
  "(0x00000000FF000000 :: 64 word) = push_bit 24 (mask 8)"
  "(0x000000FF00000000 :: 64 word) = push_bit 32 (mask 8)"
  "(0x0000FF0000000000 :: 64 word) = push_bit 40 (mask 8)"
  "(0x00FF000000000000 :: 64 word) = push_bit 48 (mask 8)"
  "(0xFF00000000000000 :: 64 word) = push_bit 56 (mask 8)"
  by (simp_all add: mask_eq_exp_minus_1)

lemma byte_swap64_or:
  "byte_swap64 n =
     ((((((push_bit 56 (n AND mask 8)
       OR push_bit 40 (n AND push_bit 8 (mask 8)))
       OR push_bit 24 (n AND push_bit 16 (mask 8)))
       OR push_bit 8 (n AND push_bit 24 (mask 8)))
       OR drop_bit 8 (n AND push_bit 32 (mask 8)))
       OR drop_bit 24 (n AND push_bit 40 (mask 8)))
       OR drop_bit 40 (n AND push_bit 48 (mask 8)))
       OR drop_bit 56 (n AND push_bit 56 (mask 8))"
proof -
  let ?a = "push_bit 56 (n AND mask 8)"
  let ?b = "push_bit 40 (n AND push_bit 8 (mask 8))"
  let ?c = "push_bit 24 (n AND push_bit 16 (mask 8))"
  let ?d = "push_bit 8 (n AND push_bit 24 (mask 8))"
  let ?e = "drop_bit 8 (n AND push_bit 32 (mask 8))"
  let ?f = "drop_bit 24 (n AND push_bit 40 (mask 8))"
  let ?g = "drop_bit 40 (n AND push_bit 48 (mask 8))"
  let ?h = "drop_bit 56 (n AND push_bit 56 (mask 8))"
  have 1: "?a + ?b = ?a OR ?b"
    by (rule add_is_or) (auto simp add: bit_simps)
  have 2: "(?a OR ?b) + ?c = (?a OR ?b) OR ?c"
    by (rule add_is_or) (auto simp add: bit_simps)
  have 3: "((?a OR ?b) OR ?c) + ?d = ((?a OR ?b) OR ?c) OR ?d"
    by (rule add_is_or) (auto simp add: bit_simps)
  have 4: "(((?a OR ?b) OR ?c) OR ?d) + ?e = (((?a OR ?b) OR ?c) OR ?d) OR ?e"
    by (rule add_is_or) (auto simp add: bit_simps)
  have 5: "((((?a OR ?b) OR ?c) OR ?d) OR ?e) + ?f = ((((?a OR ?b) OR ?c) OR ?d) OR ?e) OR ?f"
    by (rule add_is_or) (auto simp add: bit_simps)
  have 6: "(((((?a OR ?b) OR ?c) OR ?d) OR ?e) OR ?f) + ?g
      = (((((?a OR ?b) OR ?c) OR ?d) OR ?e) OR ?f) OR ?g"
    by (rule add_is_or) (auto simp add: bit_simps)
  have 7: "((((((?a OR ?b) OR ?c) OR ?d) OR ?e) OR ?f) OR ?g) + ?h
      = ((((((?a OR ?b) OR ?c) OR ?d) OR ?e) OR ?f) OR ?g) OR ?h"
    by (rule add_is_or) (auto simp add: bit_simps)
  show ?thesis
    unfolding byte_swap64_def byte_masks64 by (simp only: 1 2 3 4 5 6 7)
qed

lemma bit_byte_swap64:
  "bit (byte_swap64 x) k =
     (if k < 8 then bit x (k + 56)
      else if k < 16 then bit x (k + 40)
      else if k < 24 then bit x (k + 24)
      else if k < 32 then bit x (k + 8)
      else if k < 40 then bit x (k - 8)
      else if k < 48 then bit x (k - 24)
      else if k < 56 then bit x (k - 40)
      else if k < 64 then bit x (k - 56)
      else False)"
  unfolding byte_swap64_or
  apply (simp add: bit_simps)
  apply (intro conjI impI)
  apply (auto simp add: add.commute dest: bit_imp_le_length)
  done

lemma byte_swap64_involution: "byte_swap64 (byte_swap64 x) = x"
proof (rule bit_word_eqI)
  fix n
  assume "n < LENGTH(64)"
  then consider "n < 8" | "8 \<le> n" "n < 16" | "16 \<le> n" "n < 24" | "24 \<le> n" "n < 32"
    | "32 \<le> n" "n < 40" | "40 \<le> n" "n < 48" | "48 \<le> n" "n < 56" | "56 \<le> n" "n < 64"
    by fastforce
  then show "bit (byte_swap64 (byte_swap64 x)) n = bit x n"
    by cases (auto simp add: bit_byte_swap64)
qed

text \<open>Claim C8. Swapping the bytes of a 16-, 32- or 64-bit value twice gives the value
  back: \<open>swap16 (swap16 x) = x\<close>, \<open>swap32 (swap32 x) = x\<close> and
  \<open>swap64 (swap64 x) = x\<close> for every \<open>x\<close>.\<close>

theorem byte_swap_round_trip:
  "byte_swap16 (byte_swap16 a) = a
   \<and> byte_swap32 (byte_swap32 b) = b
   \<and> byte_swap64 (byte_swap64 c) = c"
  by (simp only: byte_swap16_involution byte_swap32_involution byte_swap64_involution)


subsection \<open>util: host byte order and range overlap\<close>

text \<open>\<open>get_byte_order\<close> stores 1 in a \<open>long\<close> and inspects the first four bytes of
  its object representation. \<open>host_long_one\<close> is that representation on the host.\<close>

definition host_long_one :: "8 word list" where
  "host_long_one = [1, 0, 0, 0, 0, 0, 0, 0]"

definition get_byte_order :: ByteOrder where
  "get_byte_order =
     (let c = take 4 host_long_one in
      if c ! 3 \<noteq> 0 \<and> c ! 2 = 0 \<and> c ! 1 = 0 \<and> c ! 0 = 0 then BigEndian
      else if c ! 3 = 0 \<and> c ! 2 = 0 \<and> c ! 1 = 0 \<and> c ! 0 \<noteq> 0 then LittleEndian
      else Unknown)"

text \<open>\<open>Vec2ul\<close> is a pair \<open>(x, y)\<close> of \<open>unsigned long\<close>; the subtractions and the
  addition of \<open>do_ranges_overlap\<close> wrap around.\<close>

type_synonym Vec2ul = "64 word \<times> 64 word"

definition do_ranges_overlap :: "Vec2ul \<Rightarrow> Vec2ul \<Rightarrow> Vec2ul option" where
  "do_ranges_overlap r1 r2 =
     (let total_range = max (snd r1) (snd r2) - min (fst r1) (fst r2);
          sum_of_ranges = (snd r1 - fst r1) + (snd r2 - fst r2)
      in if sum_of_ranges > total_range
         then Some (max (fst r1) (fst r2), min (snd r1) (snd r2))
         else None)"

text \<open>The value of an integer object whose bytes, in memory order, are \<open>bs\<close>.\<close>

fun le_word :: "8 word list \<Rightarrow> 'a::len word" where
  "le_word [] = 0"
| "le_word (b # bs) = ucast b + 256 * le_word bs"

subsection \<open>The input stream\<close>

text \<open>
  \<open>std::ifstream\<close> as the reader uses it: the bytes of the file, the get position, and
  one flag \<open>bad\<close> that stands for ``\<open>good()\<close> is false''. The reader only ever sets
  \<open>eofbit\<close> together with \<open>failbit\<close> (a short \<open>read\<close>) or \<open>failbit\<close> alone (a failed
  seek), so \<open>fail()\<close> and \<open>!good()\<close> agree in every state it can reach.
  \<^item> \<open>read\<close> on a stream that is not good extracts nothing; otherwise it extracts the
    \<open>k\<close> bytes that are there, up to \<open>n\<close>, advances by \<open>k\<close>, and \<open>k < n\<close> sets
    the flag. The number of bytes returned is \<open>gcount()\<close>.
  \<^item> \<open>tellg\<close> returns \<open>pos_type(-1)\<close>, here \<open>None\<close>, on a failed stream.
  \<^item> \<open>seekg\<close> does nothing on a failed stream; seeking to a negative or invalid
    position sets the flag; seeking past the end of the file is allowed.
\<close>

record ifstream =
  content :: "8 word list"
  gpos :: nat
  bad :: bool

definition stream_clear :: "ifstream \<Rightarrow> ifstream" where
  "stream_clear s = s\<lparr>bad := False\<rparr>"

definition stream_read :: "nat \<Rightarrow> ifstream \<Rightarrow> 8 word list \<times> ifstream" where
  "stream_read n s =
     (if bad s then ([], s)
      else let k = min n (length (content s) - gpos s)
           in (take k (drop (gpos s) (content s)), s\<lparr>gpos := gpos s + k, bad := k < n\<rparr>))"

definition tellg :: "ifstream \<Rightarrow> nat option" where
  "tellg s = (if bad s then None else Some (gpos s))"

definition seekg_beg :: "int \<Rightarrow> ifstream \<Rightarrow> ifstream" where
  "seekg_beg off s =
     (if bad s then s
      else if off < 0 then s\<lparr>bad := True\<rparr>
      else s\<lparr>gpos := nat off\<rparr>)"

definition seekg_cur :: "int \<Rightarrow> ifstream \<Rightarrow> ifstream" where
  "seekg_cur off s =
     (if bad s then s
      else if int (gpos s) + off < 0 then s\<lparr>bad := True\<rparr>
      else s\<lparr>gpos := nat (int (gpos s) + off)\<rparr>)"

definition seekg_pos :: "nat option \<Rightarrow> ifstream \<Rightarrow> ifstream" where
  "seekg_pos p s =
     (if bad s then s
      else case p of None \<Rightarrow> s\<lparr>bad := True\<rparr> | Some q \<Rightarrow> s\<lparr>gpos := q\<rparr>)"

subsection \<open>reader: ReaderFrame, ReaderFile, IFD, ReaderPrivate\<close>

text \<open>
  The records keep the source's field names, except \<open>ReaderFile::size\<close>, which is
  \<open>file_size\<close> here. \<open>resolution\<close> holds, for x and for y, the two integers whose
  \<open>float\<close> quotient the source stores; \<open>description\<close> is the string's bytes.
  \<open>tiff_path\<close> stands for what is at the path: the bytes of the file, or \<open>None\<close>
  when it cannot be opened.
\<close>

record ReaderFrame =
  width :: "32 word"
  height :: "32 word"
  compression :: "16 word"
  samples_per_pixel :: "16 word"
  bits_per_sample :: "32 word"
  planar_config :: "16 word"
  sample_format :: "16 word"
  image_length :: "32 word"
  orientation :: "8 word"
  fill_order :: "8 word"
  resolution_unit :: "16 word"
  resolution :: "(32 word \<times> 32 word) \<times> (32 word \<times> 32 word)"
  photometric_interpertation :: "32 word"
  is_tiled :: bool
  rows_per_strip :: "32 word"
  strip_count :: "32 word"
  strip_offsets :: "32 word list"
  strip_byte_counts :: "32 word list"
  description :: "8 word list"

record ReaderFile =
  first_record_offset :: "32 word"
  next_ifd_offset :: "32 word"
  system_byte_order :: ByteOrder
  file_byte_order :: ByteOrder
  file_size :: "64 word"
  current_frame :: ReaderFrame
  stream :: ifstream

record IFD =
  tag :: "16 word"
  type :: "16 word"
  count :: "32 word"
  "value" :: "32 word"
  value2 :: "32 word"
  pvalue :: "32 word list"
  pvalue2 :: "32 word list"

record ReaderPrivate =
  tiff_path :: "8 word list option"
  "file" :: ReaderFile
  last_error :: string
  good :: bool

text \<open>The enumerators of \<open>DataType\<close>.\<close>

definition DataType_Byte :: "16 word" where "DataType_Byte = 1"
definition DataType_ASCII :: "16 word" where "DataType_ASCII = 2"
definition DataType_Short :: "16 word" where "DataType_Short = 3"
definition DataType_Long :: "16 word" where "DataType_Long = 4"
definition DataType_Rational :: "16 word" where "DataType_Rational = 5"

text \<open>The default member initialisers of \<open>ReaderFrame\<close> and \<open>IFD\<close>.\<close>

definition ReaderFrame_init :: ReaderFrame where
  "ReaderFrame_init =
     \<lparr>width = 0, height = 0, compression = 1, samples_per_pixel = 1, bits_per_sample = 0,
      planar_config = 1, sample_format = 1, image_length = 0, orientation = 1,
      fill_order = 1, resolution_unit = 1, resolution = ((1, 1), (1, 1)),
      photometric_interpertation = 1, is_tiled = False, rows_per_strip = 0,
      strip_count = 0, strip_offsets = [], strip_byte_counts = [], description = []\<rparr>"

definition IFD_init :: IFD where
  "IFD_init =
     \<lparr>tag = 256, type = 1, count = 0, value = 0, value2 = 0, pvalue = [], pvalue2 = []\<rparr>"

subsection \<open>ReaderPrivate: byte\_swap\_if\_need and read\<close>

definition byte_swap_if_need8 :: "ReaderFile \<Rightarrow> 8 word \<Rightarrow> 8 word" where
  "byte_swap_if_need8 f n =
     (if system_byte_order f \<noteq> file_byte_order f then byte_swap8 n else n)"

definition byte_swap_if_need16 :: "ReaderFile \<Rightarrow> 16 word \<Rightarrow> 16 word" where
  "byte_swap_if_need16 f n =
     (if system_byte_order f \<noteq> file_byte_order f then byte_swap16 n else n)"

definition byte_swap_if_need32 :: "ReaderFile \<Rightarrow> 32 word \<Rightarrow> 32 word" where
  "byte_swap_if_need32 f n =
     (if system_byte_order f \<noteq> file_byte_order f then byte_swap32 n else n)"

text \<open>\<open>file.stream.read((char*)(&result), sizeof(result))\<close> into a zero-initialised
  \<open>result\<close>: the bytes of the object afterwards. A short read leaves the tail zero.\<close>

definition read_object :: "nat \<Rightarrow> ReaderFile \<Rightarrow> 8 word list \<times> ReaderFile" where
  "read_object n f =
     (let (bs, st) = stream_read n (stream f)
      in (bs @ replicate (n - length bs) 0, f\<lparr>stream := st\<rparr>))"

definition read_u8 :: "ReaderFile \<Rightarrow> 8 word \<times> ReaderFile" where
  "read_u8 f =
     (if \<not> bad (stream f)
      then let (obj, f') = read_object 1 f in (byte_swap_if_need8 f' (le_word obj), f')
      else (0, f))"

definition read_u16 :: "ReaderFile \<Rightarrow> 16 word \<times> ReaderFile" where
  "read_u16 f =
     (if \<not> bad (stream f)
      then let (obj, f') = read_object 2 f in (byte_swap_if_need16 f' (le_word obj), f')
      else (0, f))"

definition read_u32 :: "ReaderFile \<Rightarrow> 32 word \<times> ReaderFile" where
  "read_u32 f =
     (if \<not> bad (stream f)
      then let (obj, f') = read_object 4 f in (byte_swap_if_need32 f' (le_word obj), f')
      else (0, f))"

text \<open>\<open>uint32_t v = read<uint8_t>()\<close> and \<open>read<uint16_t>()\<close> stored in a
  \<open>std::vector<uint32_t>\<close>.\<close>

definition read_u8_as32 :: "ReaderFile \<Rightarrow> 32 word \<times> ReaderFile" where
  "read_u8_as32 f = (let (v, f') = read_u8 f in (ucast v, f'))"

definition read_u16_as32 :: "ReaderFile \<Rightarrow> 32 word \<times> ReaderFile" where
  "read_u16_as32 f = (let (v, f') = read_u16 f in (ucast v, f'))"

subsection \<open>ReaderPrivate::read\_ifd\<close>

text \<open>The inline loops \<open>for (int i = 0; i < n; ++i) { v = read(); if (i < d.count)
  d.pvalue.emplace_back(v); }\<close>; \<open>i\<close> is the index of the next iteration.\<close>

fun read_inline ::
  "(ReaderFile \<Rightarrow> 32 word \<times> ReaderFile) \<Rightarrow> nat \<Rightarrow> nat \<Rightarrow> 32 word \<Rightarrow> ReaderFile
     \<Rightarrow> 32 word list \<times> ReaderFile" where
  "read_inline rd 0 i c f = ([], f)"
| "read_inline rd (Suc n) i c f =
     (let (v, f1) = rd f;
          (vs, f2) = read_inline rd n (i + 1) c f1
      in (if of_nat i < c then v # vs else vs, f2))"

text \<open>The loops \<open>for (uint32_t i = 0; i < d.count; ++i) d.pvalue.emplace_back(read())\<close>,
  and the Rational loop that reads a pair each time.\<close>

fun read_values ::
  "(ReaderFile \<Rightarrow> 32 word \<times> ReaderFile) \<Rightarrow> nat \<Rightarrow> ReaderFile
     \<Rightarrow> 32 word list \<times> ReaderFile" where
  "read_values rd 0 f = ([], f)"
| "read_values rd (Suc n) f =
     (let (v, f1) = rd f;
          (vs, f2) = read_values rd n f1
      in (v # vs, f2))"

fun read_rationals ::
  "nat \<Rightarrow> ReaderFile \<Rightarrow> 32 word list \<times> 32 word list \<times> ReaderFile" where
  "read_rationals 0 f = ([], [], f)"
| "read_rationals (Suc n) f =
     (let (a, f1) = read_u32 f;
          (b, f2) = read_u32 f1;
          (as, bs, f3) = read_rationals n f2
      in (a # as, b # bs, f3))"

text \<open>\<open>file.stream.clear(); file.stream.seekg(offset, std::ios_base::beg)\<close>.\<close>

definition seek_to_offset :: "32 word \<Rightarrow> ReaderFile \<Rightarrow> ReaderFile" where
  "seek_to_offset offset f = f\<lparr>stream := seekg_beg (uint offset) (stream_clear (stream f))\<rparr>"

text \<open>The \<open>switch (d.type)\<close>: the entry with its value lists filled, \<open>pos_changed\<close>,
  and the session. The Byte/ASCII case reads its \<open>count\<close> bytes without the
  \<open>clear\<close> and \<open>seekg(offset)\<close> that the Short, Long and Rational cases perform.\<close>

definition read_ifd_switch :: "IFD \<Rightarrow> ReaderFile \<Rightarrow> IFD \<times> bool \<times> ReaderFile" where
  "read_ifd_switch d f =
     (if type d = DataType_Byte \<or> type d = DataType_ASCII then
        (if count d > 0 then
           (if count d \<le> 4 then
              let (vs, f1) = read_inline read_u8_as32 4 0 (count d) f
              in (d\<lparr>pvalue := pvalue d @ vs\<rparr>, False, f1)
            else
              let (offset, f1) = read_u32 f
              in if (ucast offset :: 64 word) + ucast (count d) * 1 \<le> file_size f1
                 then let (vs, f2) = read_values read_u8_as32 (unat (count d)) f1
                      in (d\<lparr>pvalue := pvalue d @ vs\<rparr>, True, f2)
                 else (d, True, f1))
         else (d, False, f))
      else if type d = DataType_Short then
        (if count d \<le> 2 then
           let (vs, f1) = read_inline read_u16_as32 2 0 (count d) f
           in (d\<lparr>pvalue := pvalue d @ vs\<rparr>, False, f1)
         else
           let (offset, f1) = read_u32 f
           in if (ucast offset :: 64 word) + ucast (count d) * 2 \<le> file_size f1
              then let (vs, f2) =
                         read_values read_u16_as32 (unat (count d)) (seek_to_offset offset f1)
                   in (d\<lparr>pvalue := pvalue d @ vs\<rparr>, True, f2)
              else (d, True, f1))
      else if type d = DataType_Long then
        (if count d \<le> 1 then
           let (v, f1) = read_u32 f
           in (d\<lparr>pvalue := pvalue d @ [v]\<rparr>, False, f1)
         else
           let (offset, f1) = read_u32 f
           in if (ucast offset :: 64 word) + ucast (count d) * 4 \<le> file_size f1
              then let (vs, f2) =
                         read_values read_u32 (unat (count d)) (seek_to_offset offset f1)
                   in (d\<lparr>pvalue := pvalue d @ vs\<rparr>, True, f2)
              else (d, True, f1))
      else if type d = DataType_Rational then
        (let (offset, f1) = read_u32 f
         in if (ucast offset :: 64 word) + ucast (count d) * 4 \<le> file_size f1
            then let (as, bs, f2) =
                       read_rationals (unat (count d)) (seek_to_offset offset f1)
                 in (d\<lparr>pvalue := pvalue d @ as, pvalue2 := pvalue2 d @ bs\<rparr>, True, f2)
            else (d, True, f1))
      else
        (let (v, f1) = read_u32 f in (d\<lparr>value := v\<rparr>, False, f1)))"

definition read_ifd :: "ReaderFile \<Rightarrow> IFD \<times> ReaderFile" where
  "read_ifd f =
     (let (t, f1) = read_u16 f;
          (ty, f2) = read_u16 f1;
          (c, f3) = read_u32 f2;
          d = IFD_init\<lparr>tag := t, type := ty, count := c\<rparr>;
          pos = tellg (stream f3);
          (d1, pos_changed, f4) = read_ifd_switch d f3;
          d2 = (if pvalue d1 \<noteq> [] then d1\<lparr>value := pvalue d1 ! 0\<rparr> else d1);
          d3 = (if pvalue2 d2 \<noteq> [] then d2\<lparr>value2 := pvalue2 d2 ! 0\<rparr> else d2);
          f5 = (if pos_changed
                then f4\<lparr>stream := seekg_cur 4 (seekg_pos pos (stream_clear (stream f4)))\<rparr>
                else f4)
      in (d3, f5))"


subsection \<open>ReaderPrivate::read\_next\_frame\<close>

text \<open>The enumerators of \<open>Tags\<close>.\<close>

definition Tags_ImageWidth :: "16 word" where "Tags_ImageWidth = 256"
definition Tags_ImageLength :: "16 word" where "Tags_ImageLength = 257"
definition Tags_BitsPerSample :: "16 word" where "Tags_BitsPerSample = 258"
definition Tags_Compression :: "16 word" where "Tags_Compression = 259"
definition Tags_PhotometricInterpretation :: "16 word" where
  "Tags_PhotometricInterpretation = 262"
definition Tags_FillOrder :: "16 word" where "Tags_FillOrder = 266"
definition Tags_ImageDescription :: "16 word" where "Tags_ImageDescription = 270"
definition Tags_StripOffsets :: "16 word" where "Tags_StripOffsets = 273"
definition Tags_Orientation :: "16 word" where "Tags_Orientation = 274"
definition Tags_SamplesPerPixel :: "16 word" where "Tags_SamplesPerPixel = 277"
definition Tags_RowsPerStrip :: "16 word" where "Tags_RowsPerStrip = 278"
definition Tags_StripByteCounts :: "16 word" where "Tags_StripByteCounts = 279"
definition Tags_XResolution :: "16 word" where "Tags_XResolution = 282"
definition Tags_YResolution :: "16 word" where "Tags_YResolution = 283"
definition Tags_PlanarConfig :: "16 word" where "Tags_PlanarConfig = 284"
definition Tags_ResolutionUnit :: "16 word" where "Tags_ResolutionUnit = 296"
definition Tags_TileWidth :: "16 word" where "Tags_TileWidth = 322"
definition Tags_TileLength :: "16 word" where "Tags_TileLength = 323"
definition Tags_TileOffsets :: "16 word" where "Tags_TileOffsets = 324"
definition Tags_TileByteCounts :: "16 word" where "Tags_TileByteCounts = 325"
definition Tags_ExtraSamples :: "16 word" where "Tags_ExtraSamples = 338"
definition Tags_SampleFormat :: "16 word" where "Tags_SampleFormat = 339"

text \<open>The body of \<open>switch (ifd.tag)\<close>: the effect of one decoded entry on the current
  frame and on \<open>err\<close>. The casts to the narrower enumerations truncate.\<close>

definition dispatch_tag :: "IFD \<Rightarrow> ReaderFrame \<Rightarrow> Error \<Rightarrow> ReaderFrame \<times> Error" where
  "dispatch_tag ifd fr err =
     (if tag ifd = Tags_ImageWidth then (fr\<lparr>width := value ifd\<rparr>, err)
      else if tag ifd = Tags_ImageLength then (fr\<lparr>image_length := value ifd\<rparr>, err)
      else if tag ifd = Tags_BitsPerSample then
        (if count ifd > 0 \<and> pvalue ifd \<noteq> []
         then (fr\<lparr>bits_per_sample := pvalue ifd ! 0\<rparr>,
               if list_ex (\<lambda>v. v \<noteq> pvalue ifd ! 0) (tl (pvalue ifd))
               then MultiSampleSizeNotSupport else err)
         else (fr\<lparr>bits_per_sample := value ifd\<rparr>, err))
      else if tag ifd = Tags_Compression then (fr\<lparr>compression := ucast (value ifd)\<rparr>, err)
      else if tag ifd = Tags_StripOffsets then
        (if count ifd > 0 \<and> pvalue ifd \<noteq> []
         then (fr\<lparr>strip_count := count ifd,
                  strip_offsets := strip_offsets fr @ pvalue ifd\<rparr>, err)
         else (fr, err))
      else if tag ifd = Tags_SamplesPerPixel then
        (fr\<lparr>samples_per_pixel := ucast (value ifd)\<rparr>, err)
      else if tag ifd = Tags_RowsPerStrip then (fr\<lparr>rows_per_strip := value ifd\<rparr>, err)
      else if tag ifd = Tags_SampleFormat then (fr\<lparr>sample_format := ucast (value ifd)\<rparr>, err)
      else if tag ifd = Tags_ImageDescription then
        (if count ifd > 0 \<and> pvalue ifd \<noteq> []
         then (fr\<lparr>description := map ucast (pvalue ifd)\<rparr>, err)
         else (fr, err))
      else if tag ifd = Tags_StripByteCounts then
        (if count ifd > 0 \<and> pvalue ifd \<noteq> []
         then (fr\<lparr>strip_count := count ifd,
                  strip_byte_counts := strip_byte_counts fr @ pvalue ifd\<rparr>, err)
         else (fr, err))
      else if tag ifd = Tags_PlanarConfig then (fr\<lparr>planar_config := ucast (value ifd)\<rparr>, err)
      else if tag ifd = Tags_Orientation then (fr\<lparr>orientation := ucast (value ifd)\<rparr>, err)
      else if tag ifd = Tags_PhotometricInterpretation then
        (fr\<lparr>photometric_interpertation := value ifd\<rparr>, err)
      else if tag ifd = Tags_FillOrder then (fr\<lparr>fill_order := ucast (value ifd)\<rparr>, err)
      else if tag ifd = Tags_TileByteCounts \<or> tag ifd = Tags_TileLength
              \<or> tag ifd = Tags_TileOffsets \<or> tag ifd = Tags_TileWidth then
        (fr\<lparr>is_tiled := True\<rparr>, err)
      else if tag ifd = Tags_XResolution then
        (fr\<lparr>resolution := ((value ifd, value2 ifd), snd (resolution fr))\<rparr>, err)
      else if tag ifd = Tags_YResolution then
        (fr\<lparr>resolution := (fst (resolution fr), (value ifd, value2 ifd))\<rparr>, err)
      else if tag ifd = Tags_ResolutionUnit then
        (fr\<lparr>resolution_unit := ucast (value ifd)\<rparr>, err)
      else (fr, err))"

text \<open>\<open>for (uint16_t i = 0; i < ifd_count; ++i) { IFD ifd = read_ifd(); switch ... }\<close>.\<close>

fun read_entries :: "nat \<Rightarrow> ReaderFile \<Rightarrow> Error \<Rightarrow> ReaderFile \<times> Error" where
  "read_entries 0 f err = (f, err)"
| "read_entries (Suc n) f err =
     (let (ifd, f1) = read_ifd f;
          (fr, err1) = dispatch_tag ifd (current_frame f1) err
      in read_entries n (f1\<lparr>current_frame := fr\<rparr>) err1)"

definition read_next_frame :: "ReaderPrivate \<Rightarrow> Error \<times> ReaderPrivate" where
  "read_next_frame p =
     (let f0 = (file p)\<lparr>current_frame := ReaderFrame_init\<rparr>
      in if next_ifd_offset f0 \<noteq> 0
            \<and> (ucast (next_ifd_offset f0) :: 64 word) + 2 < file_size f0
         then
           let f1 = seek_to_offset (next_ifd_offset f0) f0;
               (ifd_count, f2) = read_u16 f1;
               (f3, err) = read_entries (unat ifd_count) f2 NoError;
               f4 = f3\<lparr>current_frame :=
                        (current_frame f3)\<lparr>height := image_length (current_frame f3)\<rparr>\<rparr>;
               f5 = f4\<lparr>stream :=
                        seekg_beg (uint (next_ifd_offset f4) + 2 + 12 * uint ifd_count)
                          (stream_clear (stream f4))\<rparr>;
               (n, f6) = read_u32 f5
           in (err, p\<lparr>file := f6\<lparr>next_ifd_offset := n\<rparr>, good := (err = NoError)\<rparr>)
         else (NoMoreImagesInTiff, p\<lparr>file := f0, good := False\<rparr>))"

subsection \<open>ReaderPrivate::get\_sample\_data\_internal\<close>

text \<open>
  How a call ends: it returns, \<open>std::vector::at\<close> throws \<open>std::out_of_range\<close>,
  or the behaviour is undefined (an access outside a vector through \<open>operator[]\<close>,
  \<open>data()\<close> or \<open>memcpy\<close>).
\<close>

datatype 'a outcome = Returns 'a | Throws | Undefined

datatype variant_t = U8 "8 word" | U16 "16 word" | U32 "32 word" | U64 "64 word"

definition CompressionType_None :: "16 word" where "CompressionType_None = 1"
definition Orientation_Stantard :: "8 word" where "Orientation_Stantard = 1"
definition PhotometricInterpretation_Palette :: "32 word" where
  "PhotometricInterpretation_Palette = 3"
definition PlanarConfiguration_Chunky :: "16 word" where "PlanarConfiguration_Chunky = 1"
definition PlanarConfiguration_Planar :: "16 word" where "PlanarConfiguration_Planar = 2"

text \<open>Storing \<open>bs\<close> into a byte vector at index \<open>i\<close> (the caller checks the bounds).\<close>

definition store_bytes :: "nat \<Rightarrow> 8 word list \<Rightarrow> 8 word list \<Rightarrow> 8 word list" where
  "store_bytes i bs buf = take i buf @ bs @ drop (i + length bs) buf"

text \<open>
  The strip loop of the first strategy (\<open>samples_per_pixel == 1\<close> or planar). The
  arguments after the frame are \<open>sample_start_bytes\<close>, \<open>sample_end_bytes\<close>, and the
  loop's variables \<open>strip\<close>, \<open>file_imageidx_bytes\<close>, \<open>output_imageidx_bytes\<close>, the
  buffer, the stream and \<open>err\<close>. The last argument is a log that the source does not
  have: one triple (offset sought, bytes requested, output index) per \<open>read\<close>, so that
  the reads themselves can be stated. \<open>at\<close> throws outside the vectors; a read that
  would store past the end of the buffer is undefined.
\<close>

function planar_loop ::
  "ReaderFrame \<Rightarrow> 32 word \<Rightarrow> 32 word \<Rightarrow> nat \<Rightarrow> 32 word \<Rightarrow> 32 word \<Rightarrow> 8 word list
     \<Rightarrow> ifstream \<Rightarrow> Error \<Rightarrow> (int \<times> nat \<times> nat) list
     \<Rightarrow> (8 word list \<times> ifstream \<times> Error \<times> (int \<times> nat \<times> nat) list) outcome" where
  "planar_loop fr sample_start_bytes sample_end_bytes strip file_imageidx_bytes
       output_imageidx_bytes buffer st err log =
     (if strip < unat (strip_count fr) then
        (if strip < length (strip_byte_counts fr) \<and> strip < length (strip_offsets fr) then
           (let strip_size_bytes = strip_byte_counts fr ! strip;
                strip_offset_bytes = strip_offsets fr ! strip
            in case do_ranges_overlap
                      (ucast sample_start_bytes, ucast sample_end_bytes)
                      (ucast file_imageidx_bytes,
                       ucast (file_imageidx_bytes + strip_size_bytes)) of
                 Some bytes_to_read_range \<Rightarrow>
                   (let count_bytes_to_read =
                          (ucast (snd bytes_to_read_range - fst bytes_to_read_range) :: 32 word);
                        seek_offset =
                          (ucast strip_offset_bytes :: 64 word)
                            + (fst bytes_to_read_range - ucast file_imageidx_bytes);
                        st1 = seekg_beg (sint seek_offset) (stream_clear st);
                        (bs, st2) = stream_read (unat count_bytes_to_read) st1
                    in if unat output_imageidx_bytes + length bs > length buffer then Undefined
                       else planar_loop fr sample_start_bytes sample_end_bytes (strip + 1)
                              (file_imageidx_bytes + strip_size_bytes)
                              (output_imageidx_bytes + count_bytes_to_read)
                              (store_bytes (unat output_imageidx_bytes) bs buffer)
                              st2
                              (if length bs \<noteq> unat count_bytes_to_read then StripDataLost
                               else err)
                              (log @ [(sint seek_offset, unat count_bytes_to_read,
                                       unat output_imageidx_bytes)]))
               | None \<Rightarrow>
                   if file_imageidx_bytes > sample_end_bytes
                   then Returns (buffer, st, err, log)
                   else planar_loop fr sample_start_bytes sample_end_bytes (strip + 1)
                          (file_imageidx_bytes + strip_size_bytes)
                          output_imageidx_bytes buffer st err log)
         else Throws)
      else Returns (buffer, st, err, log))"
  by pat_completeness auto
termination
  by (relation "measure (\<lambda>(fr, a, b, strip, rest). unat (strip_count fr) - strip)") auto

declare planar_loop.simps [simp del]

text \<open>
  The second strategy (\<open>samples_per_pixel > 1\<close>, chunky). \<open>chunky_memcpy\<close> is the
  innermost loop \<open>for (int i = 0; i < bits_per_sample / 8; ++i)\<close>, with \<open>k\<close>
  iterations left: each copies \<open>n = bits_per_sample / 8\<close> bytes from
  \<open>&stripdata[strip_i]\<close> to \<open>&buffer[output_imageidx_bytes]\<close> (the macro is plain
  \<open>memcpy\<close> off Windows) and advances the output index by \<open>n\<close>.
\<close>

fun chunky_memcpy ::
  "nat \<Rightarrow> nat \<Rightarrow> 8 word list \<Rightarrow> 32 word \<Rightarrow> 32 word \<Rightarrow> 8 word list
     \<Rightarrow> (32 word \<times> 8 word list) outcome" where
  "chunky_memcpy 0 n stripdata strip_i output_imageidx_bytes buffer =
     Returns (output_imageidx_bytes, buffer)"
| "chunky_memcpy (Suc k) n stripdata strip_i output_imageidx_bytes buffer =
     (if unat output_imageidx_bytes + n \<le> length buffer
         \<and> unat strip_i + n \<le> length stripdata
      then chunky_memcpy k n stripdata strip_i (output_imageidx_bytes + of_nat n)
             (store_bytes (unat output_imageidx_bytes)
                (take n (drop (unat strip_i) stripdata)) buffer)
      else Undefined)"

text \<open>The loop over \<open>strip_i\<close> within one strip. Its counter is a \<open>uint32_t\<close> that
  can wrap around and its step can be zero, so it is a partial function.\<close>

partial_function (option) chunky_copy ::
  "ReaderFrame \<Rightarrow> 32 word \<Rightarrow> 8 word list \<Rightarrow> 32 word \<Rightarrow> 32 word \<Rightarrow> 32 word \<Rightarrow> 8 word list
     \<Rightarrow> (32 word \<times> 32 word \<times> 8 word list) outcome option" where
  "chunky_copy fr stripsize_bytes stripdata strip_i file_imageidx_bytes
       output_imageidx_bytes buffer =
     (if strip_i < stripsize_bytes then
        (case chunky_memcpy (unat (bits_per_sample fr div 8)) (unat (bits_per_sample fr div 8))
                stripdata strip_i output_imageidx_bytes buffer of
           Returns (output1, buffer1) \<Rightarrow>
             chunky_copy fr stripsize_bytes stripdata
               (strip_i + bits_per_sample fr div 8 * ucast (samples_per_pixel fr))
               (file_imageidx_bytes + stripsize_bytes) output1 buffer1
         | Throws \<Rightarrow> Some Throws
         | Undefined \<Rightarrow> Some Undefined)
      else Some (Returns (file_imageidx_bytes, output_imageidx_bytes, buffer)))"

declare chunky_copy.simps [code]

text \<open>The loop over the strips. The arguments after the frame and the sample index
  are \<open>strip\<close>, \<open>stripdata\<close>, \<open>last_stripsize_bytes\<close>, \<open>file_imageidx_bytes\<close>,
  \<open>output_imageidx_bytes\<close>, the buffer, the stream and \<open>err\<close>. The strip tables are
  indexed with \<open>operator[]\<close>.\<close>

function chunky_loop ::
  "ReaderFrame \<Rightarrow> 16 word \<Rightarrow> nat \<Rightarrow> 8 word list \<Rightarrow> 32 word \<Rightarrow> 32 word \<Rightarrow> 32 word
     \<Rightarrow> 8 word list \<Rightarrow> ifstream \<Rightarrow> Error
     \<Rightarrow> (8 word list \<times> ifstream \<times> Error) outcome option" where
  "chunky_loop fr sample strip stripdata last_stripsize_bytes file_imageidx_bytes
       output_imageidx_bytes buffer st err =
     (if strip < unat (strip_count fr) then
        (if strip < length (strip_byte_counts fr) \<and> strip < length (strip_offsets fr) then
           (let stripsize_bytes = strip_byte_counts fr ! strip;
                strip_offset_bytes = strip_offsets fr ! strip;
                stripdata1 = (if stripsize_bytes > last_stripsize_bytes
                              then replicate (unat stripsize_bytes) 0 else stripdata);
                last1 = (if stripsize_bytes > last_stripsize_bytes
                         then stripsize_bytes else last_stripsize_bytes);
                st1 = seekg_beg (uint strip_offset_bytes) (stream_clear st);
                (bs, st2) = stream_read (unat stripsize_bytes) st1;
                stripdata2 = store_bytes 0 bs stripdata1;
                err1 = (if length bs \<noteq> unat stripsize_bytes then StripDataLost else err)
            in case chunky_copy fr stripsize_bytes stripdata2
                      (ucast sample * bits_per_sample fr div 8)
                      file_imageidx_bytes output_imageidx_bytes buffer of
                 None \<Rightarrow> None
               | Some Throws \<Rightarrow> Some Throws
               | Some Undefined \<Rightarrow> Some Undefined
               | Some (Returns (file1, output1, buffer1)) \<Rightarrow>
                   chunky_loop fr sample (strip + 1) stripdata2 last1 file1 output1 buffer1
                     st2 err1)
         else Some Undefined)
      else Some (Returns (buffer, st, err)))"
  by pat_completeness auto
termination
  by (relation "measure (\<lambda>(fr, sample, strip, rest). unat (strip_count fr) - strip)") auto

declare chunky_loop.simps [simp del]

text \<open>Integer objects and their bytes on the host, and the element accesses
  \<open>((uintN_t*)buffer.data())[x]\<close>.\<close>

fun le_bytes :: "nat \<Rightarrow> 'a::len word \<Rightarrow> 8 word list" where
  "le_bytes 0 w = []"
| "le_bytes (Suc n) w = ucast w # le_bytes n (drop_bit 8 w)"

definition elem_bytes :: "32 word \<Rightarrow> nat" where
  "elem_bytes bps =
     (if bps = 8 then 1 else if bps = 16 then 2 else if bps = 32 then 4
      else if bps = 64 then 8 else 0)"

definition swap_elem :: "32 word \<Rightarrow> 8 word list \<Rightarrow> 8 word list" where
  "swap_elem bps bs =
     (if bps = 16 then le_bytes 2 (byte_swap16 (le_word bs))
      else if bps = 32 then le_bytes 4 (byte_swap32 (le_word bs))
      else if bps = 64 then le_bytes 8 (byte_swap64 (le_word bs))
      else bs)"

text \<open>The byte-swap pass over elements \<open>0 .. n - 1\<close> of the buffer, \<open>n\<close> being
  \<open>width * height\<close>. An element outside the buffer is undefined behaviour.\<close>

definition swap_buffer :: "32 word \<Rightarrow> nat \<Rightarrow> 8 word list \<Rightarrow> 8 word list outcome" where
  "swap_buffer bps n buffer =
     (if bps = 16 \<or> bps = 32 \<or> bps = 64 then
        (if n * elem_bytes bps \<le> length buffer
         then Returns
                (concat (map (\<lambda>x. swap_elem bps
                                     (take (elem_bytes bps) (drop (x * elem_bytes bps) buffer)))
                           [0..<n])
                 @ drop (n * elem_bytes bps) buffer)
         else Undefined)
      else Returns buffer)"

text \<open>The final loop: element \<open>i\<close> of the buffer as a \<open>variant_t\<close>; a
  default-constructed \<open>variant_t\<close> holds a zero \<open>uint8_t\<close>.\<close>

definition buffer_elem :: "32 word \<Rightarrow> 8 word list \<Rightarrow> nat \<Rightarrow> variant_t" where
  "buffer_elem bps buffer i =
     (if bps = 8 then U8 (le_word (take 1 (drop i buffer)))
      else if bps = 16 then U16 (le_word (take 2 (drop (i * 2) buffer)))
      else if bps = 32 then U32 (le_word (take 4 (drop (i * 4) buffer)))
      else if bps = 64 then U64 (le_word (take 8 (drop (i * 8) buffer)))
      else U8 0)"

definition buffer_to_variants :: "32 word \<Rightarrow> nat \<Rightarrow> 8 word list \<Rightarrow> variant_t list outcome" where
  "buffer_to_variants bps n buffer =
     (if n * elem_bytes bps \<le> length buffer
      then Returns (map (buffer_elem bps buffer) [0..<n])
      else Undefined)"

text \<open>
  The part of \<open>get_sample_data_internal\<close> between \<open>tellg\<close> and the final loop: the
  choice of strategy. The \<open>else if\<close> of the chunky strategy belongs to the outer
  \<open>if\<close> (strips present), not to the inner one (single sample or planar): with strips
  present and a chunky multi-sample frame neither loop runs.
\<close>

definition read_strips ::
  "ReaderFile \<Rightarrow> 16 word \<Rightarrow> 32 word \<Rightarrow> 8 word list \<Rightarrow> Error
     \<Rightarrow> (8 word list \<times> ifstream \<times> Error) outcome option" where
  "read_strips f sample sample_image_size_bytes buffer err =
     (let fr = current_frame f in
      if strip_count fr > 0 \<and> strip_byte_counts fr \<noteq> [] \<and> strip_offsets fr \<noteq> [] then
        (if samples_per_pixel fr = 1 \<or> planar_config fr = PlanarConfiguration_Planar then
           (let sample_start_bytes = ucast sample * sample_image_size_bytes;
                sample_end_bytes = sample_start_bytes + sample_image_size_bytes
            in case planar_loop fr sample_start_bytes sample_end_bytes 0 0 0 buffer
                      (stream f) err [] of
                 Returns (buffer1, st1, err1, log) \<Rightarrow> Some (Returns (buffer1, st1, err1))
               | Throws \<Rightarrow> Some Throws
               | Undefined \<Rightarrow> Some Undefined)
         else Some (Returns (buffer, stream f, err)))
      else if samples_per_pixel fr > 1 \<and> planar_config fr = PlanarConfiguration_Chunky then
        (case chunky_loop fr sample 0 [] 0 0 0 buffer (stream f) err of
           None \<Rightarrow> None
         | Some Throws \<Rightarrow> Some Throws
         | Some Undefined \<Rightarrow> Some Undefined
         | Some (Returns (buffer1, st1, err1)) \<Rightarrow>
             (if system_byte_order f \<noteq> file_byte_order f then
                (case swap_buffer (bits_per_sample fr) (unat (width fr * height fr)) buffer1 of
                   Returns buffer2 \<Rightarrow> Some (Returns (buffer2, st1, err1))
                 | Throws \<Rightarrow> Some Throws
                 | Undefined \<Rightarrow> Some Undefined)
              else Some (Returns (buffer1, st1, err1))))
      else Some (Returns (buffer, stream f, err)))"

text \<open>\<open>get_sample_data_internal(sample, err)\<close>: \<open>err\<close> is the value the caller's
  variable holds on entry; the result carries the vector, the caller's variable on
  return, and the session. After the final loop the source assigns
  \<open>err = Error::NoError\<close> whatever the strip loops stored in it.\<close>

definition get_sample_data_internal ::
  "16 word \<Rightarrow> Error \<Rightarrow> ReaderPrivate
     \<Rightarrow> (variant_t list \<times> Error \<times> ReaderPrivate) outcome option" where
  "get_sample_data_internal sample err p =
     (let fr = current_frame (file p) in
      if compression fr \<noteq> CompressionType_None
        then Some (Returns ([], CompressionNotSupport, p))
      else if is_tiled fr
        then Some (Returns ([], TiledNotSupport, p))
      else if orientation fr \<noteq> Orientation_Stantard
        then Some (Returns ([], OrientationNotSupport, p))
      else if photometric_interpertation fr = PhotometricInterpretation_Palette
        then Some (Returns ([], PhotometricInterpretationNotSupport, p))
      else if width fr = 0 \<or> height fr = 0
        then Some (Returns ([], InvalidImageSize, p))
      else if bits_per_sample fr \<noteq> 8 \<and> bits_per_sample fr \<noteq> 16
              \<and> bits_per_sample fr \<noteq> 32 \<and> bits_per_sample fr \<noteq> 64
        then Some (Returns ([], InvalidBitPerSample, p))
      else
        (let sample_image_size_bytes = width fr * height fr * bits_per_sample fr div 8;
             buffer = replicate (unat sample_image_size_bytes) 0;
             pos = tellg (stream (file p))
         in case read_strips (file p) sample sample_image_size_bytes buffer err of
              None \<Rightarrow> None
            | Some Throws \<Rightarrow> Some Throws
            | Some Undefined \<Rightarrow> Some Undefined
            | Some (Returns (buffer1, st1, err1)) \<Rightarrow>
                (case buffer_to_variants (bits_per_sample fr) (unat (width fr * height fr))
                        buffer1 of
                   Returns result \<Rightarrow>
                     Some (Returns (result, NoError,
                        p\<lparr>file := (file p)\<lparr>stream := seekg_pos pos (stream_clear st1)\<rparr>\<rparr>))
                 | Throws \<Rightarrow> Some Throws
                 | Undefined \<Rightarrow> Some Undefined)))"

subsection \<open>ReaderPrivate::open\<close>

text \<open>A \<open>ReaderPrivate\<close> as the constructor of \<open>Reader\<close> leaves it.\<close>

definition ReaderFile_init :: ReaderFile where
  "ReaderFile_init =
     \<lparr>first_record_offset = 0, next_ifd_offset = 0, system_byte_order = Unknown,
      file_byte_order = Unknown, file_size = 0, current_frame = ReaderFrame_init,
      stream = \<lparr>content = [], gpos = 0, bad = False\<rparr>\<rparr>"

definition Reader :: "8 word list option \<Rightarrow> ReaderPrivate" where
  "Reader path = \<lparr>tiff_path = path, file = ReaderFile_init, last_error = [], good = False\<rparr>"

text \<open>\<open>ignore(max)\<close> runs to the end of the file, so \<open>gcount()\<close> is its length;
  \<open>clear\<close> and \<open>seekg(0)\<close> rewind. The two marker bytes are read into a zeroed
  vector. \<open>ReaderPrivate_open_tail\<close> is the part of \<open>open\<close> after the byte order
  is known: the magic number, the first offset, the first frame.\<close>

definition ReaderPrivate_open_tail :: "ReaderPrivate \<Rightarrow> Error \<times> ReaderPrivate" where
  "ReaderPrivate_open_tail p =
     (let (magic, f1) = read_u16 (file p)
      in if magic \<noteq> 42 then (InvalidTiffMagicNumber, p\<lparr>file := f1\<rparr>)
         else let (first, f2) = read_u32 f1
              in read_next_frame
                   (p\<lparr>file := f2\<lparr>first_record_offset := first, next_ifd_offset := first\<rparr>\<rparr>))"

definition ReaderPrivate_open :: "ReaderPrivate \<Rightarrow> Error \<times> ReaderPrivate" where
  "ReaderPrivate_open p =
     (let f0 = (file p)\<lparr>system_byte_order := get_byte_order\<rparr>
      in case tiff_path p of
           None \<Rightarrow> (OpenFileFailed, p\<lparr>file := f0\<lparr>stream := (stream f0)\<lparr>bad := True\<rparr>\<rparr>\<rparr>)
         | Some bytes \<Rightarrow>
             let f1 = f0\<lparr>file_size := of_nat (length bytes),
                        stream := \<lparr>content = bytes, gpos = 0, bad = False\<rparr>\<rparr>;
                 (bs, st) = stream_read 2 (stream f1);
                 tiffid = bs @ replicate (3 - length bs) 0;
                 f2 = f1\<lparr>stream := st\<rparr>
             in if tiffid ! 0 = 0x49 \<and> tiffid ! 1 = 0x49 then
                  ReaderPrivate_open_tail (p\<lparr>file := f2\<lparr>file_byte_order := LittleEndian\<rparr>\<rparr>)
                else if tiffid ! 0 = 0x4D \<and> tiffid ! 1 = 0x4D then
                  ReaderPrivate_open_tail (p\<lparr>file := f2\<lparr>file_byte_order := BigEndian\<rparr>\<rparr>)
                else (InvalidTiffByteOrder, p\<lparr>file := f2\<rparr>))"


subsection \<open>The Reader facade\<close>

text \<open>The \<open>while (next_offset > 0)\<close> loop of \<open>count_frames\<close>. Nothing bounds its
  iterations (an IFD may name itself as its successor), so it is a partial function:
  \<open>None\<close> is ``does not return''. \<open>uint16_t count = read<uint16_t>() * 12\<close>
  multiplies in \<open>int\<close> and keeps the low 16 bits.\<close>

partial_function (option) count_frames_loop ::
  "ReaderFile \<Rightarrow> 32 word \<Rightarrow> 32 word \<Rightarrow> (32 word \<times> ReaderFile) option" where
  "count_frames_loop f next_offset frames =
     (if next_offset > 0 then
        (let f1 = seek_to_offset next_offset f;
             (c, f2) = read_u16 f1;
             cnt = (ucast ((ucast c :: 32 word) * 12) :: 16 word);
             f3 = f2\<lparr>stream := seekg_cur (uint cnt) (stream f2)\<rparr>;
             (n, f4) = read_u32 f3
         in count_frames_loop f4 n (frames + 1))
      else Some (frames, f))"

declare count_frames_loop.simps [code]

definition Reader_count_frames :: "ReaderPrivate \<Rightarrow> (32 word \<times> ReaderPrivate) option" where
  "Reader_count_frames p =
     (if good p then
        (let pos = tellg (stream (file p))
         in case count_frames_loop (file p) (first_record_offset (file p)) 0 of
              None \<Rightarrow> None
            | Some (frames, f) \<Rightarrow>
                Some (frames,
                      p\<lparr>file := f\<lparr>stream := seekg_pos pos (stream_clear (stream f))\<rparr>\<rparr>))
      else Some (0, p))"

definition Reader_has_next_frame :: "ReaderPrivate \<Rightarrow> bool" where
  "Reader_has_next_frame p =
     (if good p \<and> next_ifd_offset (file p) > 0
         \<and> (ucast (next_ifd_offset (file p)) :: 64 word) < file_size (file p)
      then True else False)"

definition Reader_read_next_frame :: "ReaderPrivate \<Rightarrow> Error \<times> ReaderPrivate" where
  "Reader_read_next_frame p =
     (if \<not> Reader_has_next_frame p then (NoMoreImagesInTiff, p)
      else read_next_frame p)"

definition Reader_open :: "ReaderPrivate \<Rightarrow> Error \<times> ReaderPrivate" where
  "Reader_open p = ReaderPrivate_open p"


definition Reader_get_sample_data ::
  "16 word \<Rightarrow> Error \<Rightarrow> ReaderPrivate
     \<Rightarrow> (variant_t list \<times> Error \<times> ReaderPrivate) outcome option" where
  "Reader_get_sample_data sample err p =
     (if good p then get_sample_data_internal sample err p
      else Some (Returns ([], ReaderIsNotGoodYet, p)))"


section \<open>Properties\<close>

subsection \<open>Reading from a healthy stream\<close>

text \<open>Facts about \<open>read\<close> and \<open>read_ifd\<close> on a stream that is good and has the
  bytes asked for. A stream in that state is written
  \<open>\<lparr>content = c, gpos = g, bad = False\<rparr>\<close>.\<close>

lemma take_drop_zero_part:
  assumes "take m (drop g c) = replicate m (0::8 word)" and "a + k \<le> m"
  shows "take k (drop (g + a) c) = replicate k 0"
proof -
  have "take k (drop (g + a) c) = take k (drop a (take m (drop g c)))"
    using assms(2) by (simp add: drop_take add.commute)
  also have "\<dots> = replicate k 0"
    using assms by (simp add: min_def)
  finally show ?thesis .
qed

lemma byte_swap16_zero: "byte_swap16 0 = 0"
  by (simp add: byte_swap16_def)

lemma byte_swap32_zero: "byte_swap32 0 = 0"
  by (simp add: byte_swap32_def)

lemma take_full_length:
  assumes "take n (drop g c) = xs" and "length xs = n" and "0 < n"
  shows "g + n \<le> length c"
proof -
  have "length (take n (drop g c)) = n" using assms by simp
  then show ?thesis using assms(3) by (auto simp add: min_def split: if_splits)
qed

lemma stream_read_full:
  assumes "s = \<lparr>content = c, gpos = g, bad = False\<rparr>" and "g + n \<le> length c"
  shows "stream_read n s = (take n (drop g c), \<lparr>content = c, gpos = g + n, bad = False\<rparr>)"
  using assms by (simp add: stream_read_def Let_def min_def)

lemma read_u16_zero:
  assumes "stream f = \<lparr>content = c, gpos = g, bad = False\<rparr>"
    and "take 2 (drop g c) = replicate 2 0"
  shows "read_u16 f = (0, f\<lparr>stream := \<lparr>content = c, gpos = g + 2, bad = False\<rparr>\<rparr>)"
proof -
  have "g + 2 \<le> length c"
    by (rule take_full_length [OF assms(2)]) simp_all
  from stream_read_full [OF assms(1) this] assms show ?thesis
    by (simp add: read_u16_def read_object_def Let_def byte_swap_if_need16_def
        byte_swap16_zero numeral_2_eq_2 del: add_2_eq_Suc add_2_eq_Suc')
qed

lemma read_u32_zero:
  assumes "stream f = \<lparr>content = c, gpos = g, bad = False\<rparr>"
    and "take 4 (drop g c) = replicate 4 0"
  shows "read_u32 f = (0, f\<lparr>stream := \<lparr>content = c, gpos = g + 4, bad = False\<rparr>\<rparr>)"
proof -
  have "g + 4 \<le> length c"
    by (rule take_full_length [OF assms(2)]) simp_all
  moreover have "le_word (replicate 4 (0::8 word)) = (0::32 word)"
    by (simp add: numeral_eq_Suc)
  ultimately show ?thesis using stream_read_full [OF assms(1), of 4] assms
    by (simp add: read_u32_def read_object_def Let_def byte_swap_if_need32_def
        byte_swap32_zero)
qed

lemma read_ifd_zero:
  assumes "stream f = \<lparr>content = c, gpos = g, bad = False\<rparr>"
    and "take 12 (drop g c) = replicate 12 0"
  shows "read_ifd f = (IFD_init\<lparr>tag := 0, type := 0, count := 0, value := 0\<rparr>,
                       f\<lparr>stream := \<lparr>content = c, gpos = g + 12, bad = False\<rparr>\<rparr>)"
proof -
  have a: "take 2 (drop g c) = replicate 2 0"
    using take_drop_zero_part [OF assms(2), of 0 2] by simp
  have b: "take 2 (drop (g + 2) c) = replicate 2 0"
    using take_drop_zero_part [OF assms(2), of 2 2] by simp
  have c: "take 4 (drop (g + 4) c) = replicate 4 0"
    using take_drop_zero_part [OF assms(2), of 4 4] by simp
  have d: "take 4 (drop (g + 8) c) = replicate 4 0"
    using take_drop_zero_part [OF assms(2), of 8 4] by simp
  have 1: "read_u16 f = (0, f\<lparr>stream := \<lparr>content = c, gpos = g + 2, bad = False\<rparr>\<rparr>)"
    by (rule read_u16_zero [OF assms(1) a])
  have 2: "read_u16 (f\<lparr>stream := \<lparr>content = c, gpos = g + 2, bad = False\<rparr>\<rparr>)
         = (0, f\<lparr>stream := \<lparr>content = c, gpos = g + 4, bad = False\<rparr>\<rparr>)"
    using read_u16_zero [of "f\<lparr>stream := \<lparr>content = c, gpos = g + 2, bad = False\<rparr>\<rparr>" c "g + 2"] b
    by simp
  have 3: "read_u32 (f\<lparr>stream := \<lparr>content = c, gpos = g + 4, bad = False\<rparr>\<rparr>)
         = (0, f\<lparr>stream := \<lparr>content = c, gpos = g + 8, bad = False\<rparr>\<rparr>)"
    using read_u32_zero [of "f\<lparr>stream := \<lparr>content = c, gpos = g + 4, bad = False\<rparr>\<rparr>" c "g + 4"] c
    by simp
  have 4: "read_u32 (f\<lparr>stream := \<lparr>content = c, gpos = g + 8, bad = False\<rparr>\<rparr>)
         = (0, f\<lparr>stream := \<lparr>content = c, gpos = g + 12, bad = False\<rparr>\<rparr>)"
    using read_u32_zero [of "f\<lparr>stream := \<lparr>content = c, gpos = g + 8, bad = False\<rparr>\<rparr>" c "g + 8"] d
    by simp
  show ?thesis
    by (simp add: read_ifd_def 1 2 3 4 read_ifd_switch_def IFD_init_def tellg_def
        DataType_Byte_def DataType_ASCII_def DataType_Short_def DataType_Long_def
        DataType_Rational_def del: add_2_eq_Suc add_2_eq_Suc')
qed

lemma dispatch_tag_zero:
  "tag ifd = 0 \<Longrightarrow> dispatch_tag ifd fr err = (fr, err)"
  by (simp add: dispatch_tag_def Tags_ImageWidth_def Tags_ImageLength_def Tags_BitsPerSample_def
      Tags_Compression_def Tags_PhotometricInterpretation_def Tags_FillOrder_def
      Tags_ImageDescription_def Tags_StripOffsets_def Tags_Orientation_def
      Tags_SamplesPerPixel_def Tags_RowsPerStrip_def Tags_StripByteCounts_def
      Tags_XResolution_def Tags_YResolution_def Tags_PlanarConfig_def Tags_ResolutionUnit_def
      Tags_TileWidth_def Tags_TileLength_def Tags_TileOffsets_def Tags_TileByteCounts_def
      Tags_SampleFormat_def)

lemma read_entries_zero:
  assumes "stream f = \<lparr>content = c, gpos = g, bad = False\<rparr>"
    and "take (12 * n) (drop g c) = replicate (12 * n) 0"
  shows "read_entries n f err
           = (f\<lparr>stream := \<lparr>content = c, gpos = g + 12 * n, bad = False\<rparr>\<rparr>, err)"
  using assms
proof (induction n arbitrary: f g)
  case 0
  then show ?case by simp
next
  case (Suc n)
  have first: "take 12 (drop g c) = replicate 12 0"
    using take_drop_zero_part [OF Suc.prems(2), of 0 12] by simp
  have rest: "take (12 * n) (drop (g + 12) c) = replicate (12 * n) 0"
    using take_drop_zero_part [OF Suc.prems(2), of 12 "12 * n"] by simp
  let ?f1 = "f\<lparr>stream := \<lparr>content = c, gpos = g + 12, bad = False\<rparr>\<rparr>"
  have step: "read_ifd f = (IFD_init\<lparr>tag := 0, type := 0, count := 0, value := 0\<rparr>, ?f1)"
    by (rule read_ifd_zero [OF Suc.prems(1) first])
  have "read_entries (Suc n) f err = read_entries n ?f1 err"
    by (simp add: step dispatch_tag_zero)
  also have "\<dots> = (?f1\<lparr>stream := \<lparr>content = c, gpos = (g + 12) + 12 * n, bad = False\<rparr>\<rparr>, err)"
    by (rule Suc.IH) (simp_all add: rest)
  finally show ?case by (simp add: add.assoc)
qed

lemma read_u8_snd:
  assumes "stream f = \<lparr>content = c, gpos = g, bad = False\<rparr>" and "g + 1 \<le> length c"
  shows "snd (read_u8 f) = f\<lparr>stream := \<lparr>content = c, gpos = g + 1, bad = False\<rparr>\<rparr>"
  using stream_read_full [OF assms(1), of 1] assms
  by (simp add: read_u8_def read_object_def Let_def)

lemma read_u16_snd:
  assumes "stream f = \<lparr>content = c, gpos = g, bad = False\<rparr>" and "g + 2 \<le> length c"
  shows "snd (read_u16 f) = f\<lparr>stream := \<lparr>content = c, gpos = g + 2, bad = False\<rparr>\<rparr>"
  using stream_read_full [OF assms(1), of 2] assms
  by (simp add: read_u16_def read_object_def Let_def del: add_2_eq_Suc add_2_eq_Suc')

lemma read_u32_snd:
  assumes "stream f = \<lparr>content = c, gpos = g, bad = False\<rparr>" and "g + 4 \<le> length c"
  shows "snd (read_u32 f) = f\<lparr>stream := \<lparr>content = c, gpos = g + 4, bad = False\<rparr>\<rparr>"
  using stream_read_full [OF assms(1), of 4] assms
  by (simp add: read_u32_def read_object_def Let_def)

lemma read_u8_as32_snd: "snd (read_u8_as32 f) = snd (read_u8 f)"
  by (simp add: read_u8_as32_def split_beta)

lemma read_u16_as32_snd: "snd (read_u16_as32 f) = snd (read_u16 f)"
  by (simp add: read_u16_as32_def split_beta)

lemma read_inline_u8_snd:
  assumes "stream f = \<lparr>content = c, gpos = g, bad = False\<rparr>" and "g + n \<le> length c"
  shows "snd (read_inline read_u8_as32 n i cnt f)
           = f\<lparr>stream := \<lparr>content = c, gpos = g + n, bad = False\<rparr>\<rparr>"
  using assms
proof (induction n arbitrary: f g i)
  case 0
  then show ?case by simp
next
  case (Suc n)
  let ?f1 = "f\<lparr>stream := \<lparr>content = c, gpos = g + 1, bad = False\<rparr>\<rparr>"
  have 1: "snd (read_u8 f) = ?f1"
    using Suc.prems by (intro read_u8_snd) simp_all
  have "snd (read_inline read_u8_as32 n (i + 1) cnt ?f1)
          = ?f1\<lparr>stream := \<lparr>content = c, gpos = (g + 1) + n, bad = False\<rparr>\<rparr>"
    using Suc.prems by (intro Suc.IH) simp_all
  then show ?case
    using 1 by (simp add: read_u8_as32_snd split_beta Let_def)
qed

lemma read_inline_u16_snd:
  assumes "stream f = \<lparr>content = c, gpos = g, bad = False\<rparr>" and "g + 2 * n \<le> length c"
  shows "snd (read_inline read_u16_as32 n i cnt f)
           = f\<lparr>stream := \<lparr>content = c, gpos = g + 2 * n, bad = False\<rparr>\<rparr>"
  using assms
proof (induction n arbitrary: f g i)
  case 0
  then show ?case by simp
next
  case (Suc n)
  let ?f1 = "f\<lparr>stream := \<lparr>content = c, gpos = g + 2, bad = False\<rparr>\<rparr>"
  have 1: "snd (read_u16 f) = ?f1"
    using Suc.prems by (intro read_u16_snd) simp_all
  have "snd (read_inline read_u16_as32 n (i + 1) cnt ?f1)
          = ?f1\<lparr>stream := \<lparr>content = c, gpos = (g + 2) + 2 * n, bad = False\<rparr>\<rparr>"
    using Suc.prems by (intro Suc.IH) simp_all
  then show ?case
    using 1 by (simp add: read_u16_as32_snd split_beta Let_def add.assoc del: add_2_eq_Suc add_2_eq_Suc')
qed



subsection \<open>Where read\_ifd leaves the stream\<close>

text \<open>\<open>value_is_offset\<close> holds of the entries for which the source sets
  \<open>pos_changed\<close>: the four-byte slot is an offset and the values are read elsewhere.
  \<open>empty_byte_entry\<close> holds of a Byte or ASCII entry with count 0, the one case in
  which the \<open>switch\<close> reads nothing at all.\<close>

definition value_is_offset :: "IFD \<Rightarrow> bool" where
  "value_is_offset d =
     (((type d = DataType_Byte \<or> type d = DataType_ASCII) \<and> count d > 4)
      \<or> (type d = DataType_Short \<and> count d > 2)
      \<or> (type d = DataType_Long \<and> count d > 1)
      \<or> type d = DataType_Rational)"

definition empty_byte_entry :: "IFD \<Rightarrow> bool" where
  "empty_byte_entry d = ((type d = DataType_Byte \<or> type d = DataType_ASCII) \<and> count d = 0)"

lemmas DataType_defs = DataType_Byte_def DataType_ASCII_def DataType_Short_def
  DataType_Long_def DataType_Rational_def

lemma read_ifd_switch_pos_changed:
  "fst (snd (read_ifd_switch d f)) = value_is_offset d"
proof -
  consider "type d = 1 \<or> type d = 2" | "type d = 3" | "type d = 4" | "type d = 5"
    | "type d \<noteq> 1" "type d \<noteq> 2" "type d \<noteq> 3" "type d \<noteq> 4" "type d \<noteq> 5"
    by blast
  then show ?thesis
  proof cases
    case 1
    then show ?thesis
      by (auto simp add: read_ifd_switch_def value_is_offset_def DataType_defs split_beta Let_def
          word_gt_0 not_le)
  next
    case 2
    then show ?thesis
      by (auto simp add: read_ifd_switch_def value_is_offset_def DataType_defs split_beta Let_def not_le)
  next
    case 3
    then show ?thesis
      by (auto simp add: read_ifd_switch_def value_is_offset_def DataType_defs split_beta Let_def not_le)
  next
    case 4
    then show ?thesis
      by (simp add: read_ifd_switch_def value_is_offset_def DataType_defs split_beta Let_def)
  next
    case 5
    then show ?thesis
      by (simp add: read_ifd_switch_def value_is_offset_def DataType_defs split_beta Let_def)
  qed
qed


lemma read_ifd_switch_type_count:
  "type (fst (read_ifd_switch d f)) = type d \<and> count (fst (read_ifd_switch d f)) = count d"
  by (simp add: read_ifd_switch_def split_beta Let_def)

lemma read_ifd_header:
  assumes "stream f = \<lparr>content = c, gpos = g, bad = False\<rparr>" and "g + 8 \<le> length c"
  shows "snd (read_u32 (snd (read_u16 (snd (read_u16 f)))))
           = f\<lparr>stream := \<lparr>content = c, gpos = g + 8, bad = False\<rparr>\<rparr>"
proof -
  let ?f1 = "f\<lparr>stream := \<lparr>content = c, gpos = g + 2, bad = False\<rparr>\<rparr>"
  let ?f2 = "f\<lparr>stream := \<lparr>content = c, gpos = g + 4, bad = False\<rparr>\<rparr>"
  have 1: "snd (read_u16 f) = ?f1"
    using assms by (intro read_u16_snd) simp_all
  have 2: "snd (read_u16 ?f1) = ?f2"
    using assms read_u16_snd [of ?f1 c "g + 2"] by simp
  have 3: "snd (read_u32 ?f2) = f\<lparr>stream := \<lparr>content = c, gpos = g + 8, bad = False\<rparr>\<rparr>"
    using assms read_u32_snd [of ?f2 c "g + 4"] by simp
  show ?thesis by (simp only: 1 2 3)
qed

lemma read_ifd_indirect_cursor:
  assumes "stream f = \<lparr>content = c, gpos = g, bad = False\<rparr>" and "g + 8 \<le> length c"
    and "read_ifd f = (d, f')" and "value_is_offset d"
  shows "tellg (stream f') = Some (g + 12)"
proof -
  let ?f3 = "f\<lparr>stream := \<lparr>content = c, gpos = g + 8, bad = False\<rparr>\<rparr>"
  let ?d0 = "IFD_init\<lparr>tag := fst (read_u16 f), type := fst (read_u16 (snd (read_u16 f))),
               count := fst (read_u32 (snd (read_u16 (snd (read_u16 f)))))\<rparr>"
  have h: "snd (read_u32 (snd (read_u16 (snd (read_u16 f))))) = ?f3"
    by (rule read_ifd_header [OF assms(1,2)])
  have tc: "type d = type ?d0 \<and> count d = count ?d0"
    using assms(3) read_ifd_switch_type_count [of ?d0 ?f3]
    by (auto simp add: read_ifd_def split_beta Let_def h)
  then have "value_is_offset ?d0"
    using assms(4) by (simp add: value_is_offset_def)
  then have pc: "fst (snd (read_ifd_switch ?d0 ?f3))"
    by (simp add: read_ifd_switch_pos_changed)
  have "f' = snd (read_ifd f)" using assms(3) by simp
  then show ?thesis
    using pc by (simp add: read_ifd_def split_beta Let_def h tellg_def seekg_cur_def seekg_pos_def
        stream_clear_def)
qed

lemma read_ifd_switch_inline_stream:
  assumes "stream f = \<lparr>content = c, gpos = g, bad = False\<rparr>" and "g + 4 \<le> length c"
    and "\<not> value_is_offset d" and "\<not> empty_byte_entry d"
  shows "snd (snd (read_ifd_switch d f)) = f\<lparr>stream := \<lparr>content = c, gpos = g + 4, bad = False\<rparr>\<rparr>"
proof -
  have u8: "snd (read_inline read_u8_as32 4 0 (count d) f)
              = f\<lparr>stream := \<lparr>content = c, gpos = g + 4, bad = False\<rparr>\<rparr>"
    using assms(1,2) by (intro read_inline_u8_snd) simp_all
  have u16: "snd (read_inline read_u16_as32 2 0 (count d) f)
              = f\<lparr>stream := \<lparr>content = c, gpos = g + 4, bad = False\<rparr>\<rparr>"
    using assms(1,2) read_inline_u16_snd [of f c g 2 0 "count d"] by simp
  have u32: "snd (read_u32 f) = f\<lparr>stream := \<lparr>content = c, gpos = g + 4, bad = False\<rparr>\<rparr>"
    using assms(1,2) by (intro read_u32_snd) simp_all
  consider "type d = 1 \<or> type d = 2" | "type d = 3" | "type d = 4" | "type d = 5"
    | "type d \<noteq> 1" "type d \<noteq> 2" "type d \<noteq> 3" "type d \<noteq> 4" "type d \<noteq> 5"
    by blast
  then show ?thesis
  proof cases
    case 1
    then have "0 < count d" "count d \<le> 4"
      using assms(3,4) by (auto simp add: value_is_offset_def empty_byte_entry_def DataType_defs word_gt_0 not_less)
    then show ?thesis
      using 1 by (auto simp add: read_ifd_switch_def DataType_defs split_beta u8)
  next
    case 2
    then have "count d \<le> 2"
      using assms(3) by (auto simp add: value_is_offset_def DataType_defs not_less)
    then show ?thesis
      using 2 by (simp add: read_ifd_switch_def DataType_defs split_beta u16)
  next
    case 3
    then have "count d \<le> 1"
      using assms(3) by (auto simp add: value_is_offset_def DataType_defs not_less)
    then show ?thesis
      using 3 by (simp add: read_ifd_switch_def DataType_defs split_beta u32)
  next
    case 4
    then show ?thesis
      using assms(3) by (simp add: value_is_offset_def DataType_defs)
  next
    case 5
    then show ?thesis
      by (simp add: read_ifd_switch_def DataType_defs split_beta u32)
  qed
qed

lemma read_ifd_switch_empty_stream:
  assumes "empty_byte_entry d"
  shows "snd (snd (read_ifd_switch d f)) = f"
  using assms by (auto simp add: read_ifd_switch_def empty_byte_entry_def)

lemma empty_not_offset: "empty_byte_entry d \<Longrightarrow> \<not> value_is_offset d"
  by (auto simp add: empty_byte_entry_def value_is_offset_def DataType_defs)

lemma read_ifd_cursor:
  assumes "stream f = \<lparr>content = c, gpos = g, bad = False\<rparr>" and "g + 12 \<le> length c"
    and "read_ifd f = (d, f')"
  shows "tellg (stream f') = Some (if empty_byte_entry d then g + 8 else g + 12)"
proof -
  let ?f3 = "f\<lparr>stream := \<lparr>content = c, gpos = g + 8, bad = False\<rparr>\<rparr>"
  let ?d0 = "IFD_init\<lparr>tag := fst (read_u16 f), type := fst (read_u16 (snd (read_u16 f))),
               count := fst (read_u32 (snd (read_u16 (snd (read_u16 f)))))\<rparr>"
  have g8: "g + 8 \<le> length c" using assms(2) by simp
  have h: "snd (read_u32 (snd (read_u16 (snd (read_u16 f))))) = ?f3"
    by (rule read_ifd_header [OF assms(1) g8])
  have tc: "type d = type ?d0 \<and> count d = count ?d0"
    using assms(3) read_ifd_switch_type_count [of ?d0 ?f3]
    by (auto simp add: read_ifd_def split_beta Let_def h)
  have f': "f' = snd (read_ifd f)" using assms(3) by simp
  show ?thesis
  proof (cases "value_is_offset d")
    case True
    then have "\<not> empty_byte_entry d" using empty_not_offset by blast
    then show ?thesis
      using read_ifd_indirect_cursor [OF assms(1) g8 assms(3) True] by simp
  next
    case False
    then have no: "\<not> value_is_offset ?d0"
      using tc by (simp add: value_is_offset_def)
    then have pc: "\<not> fst (snd (read_ifd_switch ?d0 ?f3))"
      by (simp add: read_ifd_switch_pos_changed)
    show ?thesis
    proof (cases "empty_byte_entry d")
      case True
      then have "empty_byte_entry ?d0" using tc by (simp add: empty_byte_entry_def)
      then have "snd (snd (read_ifd_switch ?d0 ?f3)) = ?f3"
        by (rule read_ifd_switch_empty_stream)
      then show ?thesis
        using True pc f' by (simp add: read_ifd_def split_beta Let_def h tellg_def)
    next
      case False
      then have ne: "\<not> empty_byte_entry ?d0" using tc by (simp add: empty_byte_entry_def)
      have "snd (snd (read_ifd_switch ?d0 ?f3))
              = ?f3\<lparr>stream := \<lparr>content = c, gpos = (g + 8) + 4, bad = False\<rparr>\<rparr>"
        using assms(2) by (intro read_ifd_switch_inline_stream [OF _ _ no ne]) simp_all
      then show ?thesis
        using False pc f' by (simp add: read_ifd_def split_beta Let_def h tellg_def)
    qed
  qed
qed

subsection \<open>Fixtures\<close>

text \<open>\<open>session_at bytes g\<close> is the \<open>ReaderFile\<close> of a little-endian file on this
  host with the stream at position \<open>g\<close>, as \<open>read_next_frame\<close> has it when it calls
  \<open>read_ifd\<close>. \<open>opened bytes\<close> is the reader after \<open>open()\<close> on a file with those
  bytes. \<open>returned_values\<close> keeps the vector and the error code of a call that
  returned.\<close>

definition session_at :: "8 word list \<Rightarrow> nat \<Rightarrow> ReaderFile" where
  "session_at bytes g =
     ReaderFile_init\<lparr>system_byte_order := LittleEndian, file_byte_order := LittleEndian,
       file_size := of_nat (length bytes),
       stream := \<lparr>content = bytes, gpos = g, bad = False\<rparr>\<rparr>"

definition opened :: "8 word list \<Rightarrow> ReaderPrivate" where
  "opened bytes = snd (Reader_open (Reader (Some bytes)))"

definition returned_values ::
  "(variant_t list \<times> Error \<times> ReaderPrivate) outcome option
     \<Rightarrow> (variant_t list \<times> Error) option" where
  "returned_values r =
     (case r of Some (Returns (vs, e, p)) \<Rightarrow> Some (vs, e) | _ \<Rightarrow> None)"

text \<open>A file whose only directory holds an ImageDescription entry of type ASCII with
  count 0 (bytes 10 to 21), then an ImageWidth entry of type Long with value 5 (bytes
  22 to 33), then the next-IFD offset 0.\<close>

definition tiff_empty_description :: "8 word list" where
  "tiff_empty_description =
     [73, 73, 42, 0, 8, 0, 0, 0, 2, 0,
      14, 1, 2, 0, 0, 0, 0, 0, 0, 0, 0, 0,
      0, 1, 4, 0, 1, 0, 0, 0, 5, 0, 0, 0,
      0, 0, 0, 0]"

text \<open>A file whose only directory holds an ImageDescription entry of type ASCII with
  count 5 and offset 26 (bytes 10 to 21); the next-IFD offset 0 is at 22 and the five
  characters \<open>HELLO\<close> are at 26.\<close>

definition tiff_hello :: "8 word list" where
  "tiff_hello =
     [73, 73, 42, 0, 8, 0, 0, 0, 1, 0,
      14, 1, 2, 0, 5, 0, 0, 0, 26, 0, 0, 0,
      0, 0, 0, 0,
      72, 69, 76, 76, 79]"

text \<open>A 2 by 1 image, one 8-bit sample per pixel, whose single strip is declared at
  offset 74 with 2 bytes while the file ends after the first of them.\<close>

definition tiff_short_strip :: "8 word list" where
  "tiff_short_strip =
     [73, 73, 42, 0, 8, 0, 0, 0, 5, 0,
      0, 1, 4, 0, 1, 0, 0, 0, 2, 0, 0, 0,
      1, 1, 4, 0, 1, 0, 0, 0, 1, 0, 0, 0,
      2, 1, 3, 0, 1, 0, 0, 0, 8, 0, 0, 0,
      17, 1, 4, 0, 1, 0, 0, 0, 74, 0, 0, 0,
      23, 1, 4, 0, 1, 0, 0, 0, 2, 0, 0, 0,
      0, 0, 0, 0,
      77]"

text \<open>The same 2 by 1 image with two 8-bit samples per pixel, pixels \<open>(10, 20)\<close> and
  \<open>(30, 40)\<close>, stored twice: planar (PlanarConfig 2, one strip per sample, \<open>10 30\<close> at
  98 and \<open>20 40\<close> at 100) and chunky (PlanarConfig 1, one strip \<open>10 20 30 40\<close> at 98).\<close>

definition tiff_planar :: "8 word list" where
  "tiff_planar =
     [73, 73, 42, 0, 8, 0, 0, 0, 7, 0,
      0, 1, 4, 0, 1, 0, 0, 0, 2, 0, 0, 0,
      1, 1, 4, 0, 1, 0, 0, 0, 1, 0, 0, 0,
      2, 1, 3, 0, 2, 0, 0, 0, 8, 0, 8, 0,
      17, 1, 3, 0, 2, 0, 0, 0, 98, 0, 100, 0,
      21, 1, 3, 0, 1, 0, 0, 0, 2, 0, 0, 0,
      23, 1, 3, 0, 2, 0, 0, 0, 2, 0, 2, 0,
      28, 1, 3, 0, 1, 0, 0, 0, 2, 0, 0, 0,
      0, 0, 0, 0,
      10, 30, 20, 40]"

definition tiff_chunky :: "8 word list" where
  "tiff_chunky =
     [73, 73, 42, 0, 8, 0, 0, 0, 7, 0,
      0, 1, 4, 0, 1, 0, 0, 0, 2, 0, 0, 0,
      1, 1, 4, 0, 1, 0, 0, 0, 1, 0, 0, 0,
      2, 1, 3, 0, 2, 0, 0, 0, 8, 0, 8, 0,
      17, 1, 4, 0, 1, 0, 0, 0, 98, 0, 0, 0,
      21, 1, 3, 0, 1, 0, 0, 0, 2, 0, 0, 0,
      23, 1, 4, 0, 1, 0, 0, 0, 4, 0, 0, 0,
      28, 1, 3, 0, 1, 0, 0, 0, 1, 0, 0, 0,
      0, 0, 0, 0,
      10, 20, 30, 40]"

text \<open>Three pages of one 8-bit pixel each, with directories of five entries at 8, 76
  and 144.\<close>

definition tiff_three_pages :: "8 word list" where
  "tiff_three_pages =
     [73, 73, 42, 0, 8, 0, 0, 0,
      5, 0,
      0, 1, 4, 0, 1, 0, 0, 0, 1, 0, 0, 0,
      1, 1, 4, 0, 1, 0, 0, 0, 1, 0, 0, 0,
      2, 1, 3, 0, 1, 0, 0, 0, 8, 0, 0, 0,
      17, 1, 4, 0, 1, 0, 0, 0, 74, 0, 0, 0,
      23, 1, 4, 0, 1, 0, 0, 0, 1, 0, 0, 0,
      76, 0, 0, 0,
      11, 0,
      5, 0,
      0, 1, 4, 0, 1, 0, 0, 0, 1, 0, 0, 0,
      1, 1, 4, 0, 1, 0, 0, 0, 1, 0, 0, 0,
      2, 1, 3, 0, 1, 0, 0, 0, 8, 0, 0, 0,
      17, 1, 4, 0, 1, 0, 0, 0, 142, 0, 0, 0,
      23, 1, 4, 0, 1, 0, 0, 0, 1, 0, 0, 0,
      144, 0, 0, 0,
      22, 0,
      5, 0,
      0, 1, 4, 0, 1, 0, 0, 0, 1, 0, 0, 0,
      1, 1, 4, 0, 1, 0, 0, 0, 1, 0, 0, 0,
      2, 1, 3, 0, 1, 0, 0, 0, 8, 0, 0, 0,
      17, 1, 4, 0, 1, 0, 0, 0, 210, 0, 0, 0,
      23, 1, 4, 0, 1, 0, 0, 0, 1, 0, 0, 0,
      0, 0, 0, 0,
      33, 0]"

text \<open>A file of two frames of 2 by 1 pixels of 8 bits whose first directory is last in
  the file, at 76, with its next-IFD field cut after two bytes (10, 0); the second
  directory is at 10 and the strip of both frames at 8. And a file that ends inside the
  \<open>count\<close> field of its only directory entry, a StripOffsets entry of type Short.
  \<open>cursor\<close> is where a stream stands and whether it has failed.\<close>

definition tiff_cut_link :: "8 word list" where
  "tiff_cut_link =
     [73, 73, 42, 0, 76, 0, 0, 0,
      5, 6,
      5, 0,
      0, 1, 4, 0, 1, 0, 0, 0, 2, 0, 0, 0,
      1, 1, 4, 0, 1, 0, 0, 0, 1, 0, 0, 0,
      2, 1, 3, 0, 1, 0, 0, 0, 8, 0, 0, 0,
      17, 1, 4, 0, 1, 0, 0, 0, 8, 0, 0, 0,
      23, 1, 4, 0, 1, 0, 0, 0, 2, 0, 0, 0,
      0, 0, 0, 0,
      5, 0,
      0, 1, 4, 0, 1, 0, 0, 0, 2, 0, 0, 0,
      1, 1, 4, 0, 1, 0, 0, 0, 1, 0, 0, 0,
      2, 1, 3, 0, 1, 0, 0, 0, 8, 0, 0, 0,
      17, 1, 4, 0, 1, 0, 0, 0, 8, 0, 0, 0,
      23, 1, 4, 0, 1, 0, 0, 0, 2, 0, 0, 0,
      10, 0]"

definition tiff_cut_entry :: "8 word list" where
  "tiff_cut_entry = [73, 73, 42, 0, 8, 0, 0, 0, 1, 0, 17, 1, 3, 0, 4, 0]"

definition cursor :: "ifstream \<Rightarrow> nat \<times> bool" where
  "cursor s = (gpos s, bad s)"

subsection \<open>Directory entries\<close>

text \<open>Claim C2. For every 12-byte directory entry, \<open>read_ifd\<close> leaves the stream
  exactly 12 bytes past the start of the entry, for every type and every count, count 0
  included. The code does not: by \<open>read_ifd_cursor\<close> it stops 8 bytes past the start
  of a Byte or ASCII entry with count 0 and 12 bytes past the start of every other
  entry. Evaluated on \<open>tiff_empty_description\<close>: the entry starts at 10 and the stream
  is left at 18; the bytes from 18 on are then decoded as the next entry, whose tag
  reads 0, and the ImageWidth entry at 22 is never seen, so the opened frame has
  width 0 where the file says 5.\<close>

theorem read_ifd_empty_ascii_entry_stops_short:
  "tellg (stream (snd (read_ifd (session_at tiff_empty_description 10)))) = Some 18
   \<and> type (fst (read_ifd (session_at tiff_empty_description 10))) = DataType_ASCII
   \<and> count (fst (read_ifd (session_at tiff_empty_description 10))) = 0
   \<and> tag (fst (read_ifd (session_at tiff_empty_description 18))) = 0
   \<and> width (current_frame (file (opened tiff_empty_description))) = 0"
  by code_simp

text \<open>Claim C6. For a Byte or ASCII entry with count above 4 the slot holds an offset;
  the parser checks \<open>offset + count \<le> file size\<close> and, when the check passes, seeks to
  the offset and reads \<open>count\<close> bytes. The code checks but does not seek: the Byte/ASCII
  case of \<open>read_ifd_switch\<close> reads on from where the slot ended. Evaluated on
  \<open>tiff_hello\<close>: the entry at 10 has count 5 and offset 26, the check passes
  (\<open>26 + 5 \<le> 31\<close>), the file holds \<open>HELLO\<close> at 26, and the decoded values are the five
  bytes at 22, \<open>0 0 0 0 72\<close>.\<close>

theorem read_ifd_ascii_offset_not_followed:
  "pvalue (fst (read_ifd (session_at tiff_hello 10))) = [0, 0, 0, 0, 72]
   \<and> count (fst (read_ifd (session_at tiff_hello 10))) = 5
   \<and> take 5 (drop 26 tiff_hello) = [72, 69, 76, 76, 79]
   \<and> description (current_frame (file (opened tiff_hello))) = [0, 0, 0, 0, 72]"
  by code_simp

subsection \<open>Sample extraction on the fixtures\<close>

text \<open>Claim C4. When a strip read returns fewer bytes than requested, extraction goes
  on, the partly filled buffer is returned, and \<open>StripDataLost\<close> is flagged in the
  error parameter. The code goes on and returns the buffer, but the caller's error
  variable ends as \<open>NoError\<close>: the strip loop stores \<open>StripDataLost\<close> in it and the
  assignment after the final loop overwrites that. Evaluated on \<open>tiff_short_strip\<close>:
  the strip phase ends with \<open>StripDataLost\<close> and the one byte that was there, and the
  call returns \<open>77, 0\<close> with \<open>NoError\<close>.\<close>

theorem short_strip_reports_no_error:
  "good (opened tiff_short_strip)
   \<and> read_strips (file (opened tiff_short_strip)) 0 2 [0, 0] NoError
       = Some (Returns ([77, 0], \<lparr>content = tiff_short_strip, gpos = 75, bad = True\<rparr>,
                        StripDataLost))
   \<and> returned_values (Reader_get_sample_data 0 NoError (opened tiff_short_strip))
       = Some ([U8 77, U8 0], NoError)"
  by code_simp

text \<open>Claim C1. A planar and a chunky encoding of the same pixels give the same sample
  sequence for every sample index. The code does not: with strips present and a chunky
  frame of more than one sample per pixel, \<open>read_strips\<close> runs neither strategy and the
  zero-filled buffer is returned. Evaluated on \<open>tiff_planar\<close> and \<open>tiff_chunky\<close>,
  both holding the pixels \<open>(10, 20)\<close> and \<open>(30, 40)\<close>: the planar file gives
  \<open>10, 30\<close> and \<open>20, 40\<close>, the chunky file gives \<open>0, 0\<close> for both samples.\<close>

theorem planar_and_chunky_differ:
  "returned_values (Reader_get_sample_data 0 NoError (opened tiff_planar))
     = Some ([U8 10, U8 30], NoError)
   \<and> returned_values (Reader_get_sample_data 1 NoError (opened tiff_planar))
     = Some ([U8 20, U8 40], NoError)
   \<and> returned_values (Reader_get_sample_data 0 NoError (opened tiff_chunky))
     = Some ([U8 0, U8 0], NoError)
   \<and> returned_values (Reader_get_sample_data 1 NoError (opened tiff_chunky))
     = Some ([U8 0, U8 0], NoError)"
  by code_simp

subsection \<open>The stream position across calls\<close>

lemma count_frames_restores:
  assumes "Reader_count_frames p = Some (n, p')"
  shows "tellg (stream (file p')) = tellg (stream (file p))"
  using assms
  by (auto simp add: Reader_count_frames_def Let_def tellg_def seekg_pos_def stream_clear_def
      split: if_splits option.splits)

lemma get_sample_data_internal_restores:
  assumes "get_sample_data_internal sample err p = Some (Returns (vs, e, p'))"
  shows "tellg (stream (file p')) = tellg (stream (file p))"
  using assms
  by (auto simp add: get_sample_data_internal_def Let_def tellg_def seekg_pos_def
      stream_clear_def split: if_splits option.splits outcome.splits)

lemma get_sample_data_restores:
  assumes "Reader_get_sample_data sample err p = Some (Returns (vs, e, p'))"
  shows "tellg (stream (file p')) = tellg (stream (file p))"
  using assms get_sample_data_internal_restores [of sample err p vs e p']
  by (auto simp add: Reader_get_sample_data_def split: if_splits)

text \<open>What decoding a directory cannot change: the link to the directory and the
  bytes of the file.\<close>

definition directory_kept :: "ReaderFile \<Rightarrow> ReaderFile \<Rightarrow> bool" where
  "directory_kept f f' =
     (next_ifd_offset f' = next_ifd_offset f \<and> content (stream f') = content (stream f))"

lemma directory_kept_refl: "directory_kept f f"
  by (simp add: directory_kept_def)

lemma directory_kept_trans:
  "directory_kept f g \<Longrightarrow> directory_kept g h \<Longrightarrow> directory_kept f h"
  by (simp add: directory_kept_def)

lemma read_object_kept: "directory_kept f (snd (read_object n f))"
  by (simp add: directory_kept_def read_object_def stream_read_def Let_def split_beta)

lemma read_u8_kept: "directory_kept f (snd (read_u8 f))"
  using read_object_kept [of f 1]
  by (simp add: read_u8_def directory_kept_refl split_beta)

lemma read_u16_kept: "directory_kept f (snd (read_u16 f))"
  using read_object_kept [of f 2]
  by (simp add: read_u16_def directory_kept_refl split_beta)

lemma read_u32_kept: "directory_kept f (snd (read_u32 f))"
  using read_object_kept [of f 4]
  by (simp add: read_u32_def directory_kept_refl split_beta)

lemma read_u8_as32_kept: "directory_kept f (snd (read_u8_as32 f))"
  using read_u8_kept [of f] by (simp add: read_u8_as32_def split_beta)

lemma read_u16_as32_kept: "directory_kept f (snd (read_u16_as32 f))"
  using read_u16_kept [of f] by (simp add: read_u16_as32_def split_beta)

lemma seek_to_offset_kept: "directory_kept f (seek_to_offset off f)"
  by (simp add: directory_kept_def seek_to_offset_def seekg_beg_def stream_clear_def)

lemma read_inline_kept:
  assumes "\<And>g. directory_kept g (snd (rd g))"
  shows "directory_kept f (snd (read_inline rd n i c f))"
proof (induction n arbitrary: i f)
  case 0
  show ?case by (simp add: directory_kept_refl)
next
  case (Suc n)
  have "directory_kept f (snd (read_inline rd n (i + 1) c (snd (rd f))))"
    using assms [of f] Suc [of "snd (rd f)" "i + 1"] by (rule directory_kept_trans)
  then show ?case by (simp add: split_beta)
qed

lemma read_values_kept:
  assumes "\<And>g. directory_kept g (snd (rd g))"
  shows "directory_kept f (snd (read_values rd n f))"
proof (induction n arbitrary: f)
  case 0
  show ?case by (simp add: directory_kept_refl)
next
  case (Suc n)
  have "directory_kept f (snd (read_values rd n (snd (rd f))))"
    using assms [of f] Suc [of "snd (rd f)"] by (rule directory_kept_trans)
  then show ?case by (simp add: split_beta)
qed

lemma read_rationals_kept: "directory_kept f (snd (snd (read_rationals n f)))"
proof (induction n arbitrary: f)
  case 0
  show ?case by (simp add: directory_kept_refl)
next
  case (Suc n)
  have "directory_kept f (snd (read_u32 (snd (read_u32 f))))"
    using read_u32_kept read_u32_kept by (rule directory_kept_trans)
  then have "directory_kept f (snd (snd (read_rationals n (snd (read_u32 (snd (read_u32 f)))))))"
    using Suc by (rule directory_kept_trans)
  then show ?case by (simp add: split_beta)
qed

lemma read_ifd_switch_kept: "directory_kept f (snd (snd (read_ifd_switch d f)))"
proof -
  have a: "directory_kept f (snd (read_u32 f))" by (rule read_u32_kept)
  have b: "directory_kept f (seek_to_offset off (snd (read_u32 f)))" for off
    using a seek_to_offset_kept by (rule directory_kept_trans)
  have v8: "directory_kept f (snd (read_values read_u8_as32 n (snd (read_u32 f))))" for n
    using a read_values_kept [OF read_u8_as32_kept] by (rule directory_kept_trans)
  have v16: "directory_kept f
               (snd (read_values read_u16_as32 n (seek_to_offset off (snd (read_u32 f)))))"
    for n off
    using b read_values_kept [OF read_u16_as32_kept] by (rule directory_kept_trans)
  have v32: "directory_kept f
               (snd (read_values read_u32 n (seek_to_offset off (snd (read_u32 f)))))"
    for n off
    using b read_values_kept [OF read_u32_kept] by (rule directory_kept_trans)
  have r: "directory_kept f
             (snd (snd (read_rationals n (seek_to_offset off (snd (read_u32 f))))))"
    for n off
    using b read_rationals_kept by (rule directory_kept_trans)
  have i8: "directory_kept f (snd (read_inline read_u8_as32 4 0 c f))" for c
    by (rule read_inline_kept [OF read_u8_as32_kept])
  have i16: "directory_kept f (snd (read_inline read_u16_as32 2 0 c f))" for c
    by (rule read_inline_kept [OF read_u16_as32_kept])
  consider "type d = 1 \<or> type d = 2" | "type d = 3" | "type d = 4" | "type d = 5"
    | "type d \<noteq> 1" "type d \<noteq> 2" "type d \<noteq> 3" "type d \<noteq> 4" "type d \<noteq> 5"
    by blast
  then show ?thesis
  proof cases
    case 1
    then show ?thesis
      using a v8 i8
      by (auto simp add: read_ifd_switch_def DataType_defs split_beta Let_def
          directory_kept_refl)
  next
    case 2
    then show ?thesis
      using a v16 i16
      by (simp add: read_ifd_switch_def DataType_defs split_beta Let_def)
  next
    case 3
    then show ?thesis
      using a v32
      by (simp add: read_ifd_switch_def DataType_defs split_beta Let_def)
  next
    case 4
    then show ?thesis
      using a r
      by (simp add: read_ifd_switch_def DataType_defs split_beta Let_def)
  next
    case 5
    then show ?thesis
      using a
      by (simp add: read_ifd_switch_def DataType_defs split_beta Let_def)
  qed
qed

lemma read_ifd_kept: "directory_kept f (snd (read_ifd f))"
proof -
  let ?f3 = "snd (read_u32 (snd (read_u16 (snd (read_u16 f)))))"
  have "directory_kept f (snd (read_u16 (snd (read_u16 f))))"
    using read_u16_kept read_u16_kept by (rule directory_kept_trans)
  then have 3: "directory_kept f ?f3"
    using read_u32_kept by (rule directory_kept_trans)
  have 4: "directory_kept f (snd (snd (read_ifd_switch d ?f3)))" for d
    using 3 read_ifd_switch_kept by (rule directory_kept_trans)
  have 5: "directory_kept f (g\<lparr>stream := seekg_cur 4 (seekg_pos pos (stream_clear (stream g)))\<rparr>)"
    if "directory_kept f g" for g pos
    using that
    by (simp add: directory_kept_def seekg_cur_def seekg_pos_def stream_clear_def
        split: option.splits)
  show ?thesis
    using 4 5 by (simp add: read_ifd_def split_beta Let_def)
qed

lemma read_entries_kept: "directory_kept f (fst (read_entries n f err))"
proof (induction n arbitrary: f err)
  case 0
  show ?case by (simp add: directory_kept_refl)
next
  case (Suc n)
  have "directory_kept f ((snd (read_ifd f))\<lparr>current_frame := fr\<rparr>)" for fr
    using read_ifd_kept [of f] by (simp add: directory_kept_def)
  then have "directory_kept f (fst (read_entries n ((snd (read_ifd f))\<lparr>current_frame := fr\<rparr>) e))"
    for fr e
    using Suc by (rule directory_kept_trans)
  then show ?case by (simp add: split_beta Let_def)
qed

text \<open>A directory entry read on a failed stream has type 0: it never follows an
  offset.\<close>

lemma bad_not_offset:
  assumes "bad (stream f)"
  shows "\<not> value_is_offset (fst (read_ifd f))"
proof -
  have 1: "read_u16 f = (0, f)" using assms by (simp add: read_u16_def)
  have 2: "read_u32 f = (0, f)" using assms by (simp add: read_u32_def)
  have "type (fst (read_ifd f)) = 0"
    using read_ifd_switch_type_count [of "IFD_init\<lparr>tag := 0, type := 0, count := 0\<rparr>" f]
    by (simp add: read_ifd_def 1 2 split_beta Let_def)
  then show ?thesis
    by (simp add: value_is_offset_def DataType_defs)
qed

lemma read_u32_stream:
  assumes "\<not> bad (stream f)"
  shows "stream (snd (read_u32 f))
           = \<lparr>content = content (stream f),
              gpos = gpos (stream f) + min 4 (length (content (stream f)) - gpos (stream f)),
              bad = (length (content (stream f)) - gpos (stream f) < 4)\<rparr>"
  using assms
  by (cases "stream f")
    (auto simp add: read_u32_def read_object_def stream_read_def Let_def split_beta)

lemma read_next_frame_cursor:
  assumes "next_ifd_offset (file p) \<noteq> 0"
    and "(ucast (next_ifd_offset (file p)) :: 64 word) + 2 < file_size (file p)"
    and "cnt = fst (read_u16 (seek_to_offset (next_ifd_offset (file p))
                 ((file p)\<lparr>current_frame := ReaderFrame_init\<rparr>)))"
    and "c = content (stream (file p))"
    and "P = unat (next_ifd_offset (file p)) + 2 + 12 * unat cnt"
  shows "stream (file (snd (read_next_frame p)))
           = \<lparr>content = c, gpos = P + min 4 (length c - P), bad = (length c - P < 4)\<rparr>"
proof -
  define f0 where "f0 = (file p)\<lparr>current_frame := ReaderFrame_init\<rparr>"
  define f2 where "f2 = snd (read_u16 (seek_to_offset (next_ifd_offset f0) f0))"
  define f3 where "f3 = fst (read_entries (unat cnt) f2 NoError)"
  define f5 where "f5 = f3\<lparr>current_frame :=
                        (current_frame f3)\<lparr>height := image_length (current_frame f3)\<rparr>,
                      stream := seekg_beg (uint (next_ifd_offset f3) + 2 + 12 * uint cnt)
                          (stream_clear (stream f3))\<rparr>"
  have "directory_kept f0 f2"
    unfolding f2_def using seek_to_offset_kept read_u16_kept by (rule directory_kept_trans)
  then have k: "directory_kept f0 f3"
    unfolding f3_def using read_entries_kept by (rule directory_kept_trans)
  have off: "next_ifd_offset f3 = next_ifd_offset (file p)"
    and c: "content (stream f3) = c"
    using k by (simp_all add: directory_kept_def f0_def assms(4))
  have ip: "uint (next_ifd_offset (file p)) + 2 + 12 * uint cnt = int P"
    unfolding assms(5) by (simp only: uint_nat of_nat_add of_nat_mult of_nat_numeral)
  have s5: "stream f5 = \<lparr>content = c, gpos = P, bad = False\<rparr>"
    using c by (cases "stream f3") (simp add: f5_def seekg_beg_def stream_clear_def off ip)
  have t: "stream (snd (read_u32 f5))
             = \<lparr>content = c, gpos = P + min 4 (length c - P), bad = (length c - P < 4)\<rparr>"
    using read_u32_stream [of f5] by (simp add: s5)
  have "file (snd (read_next_frame p)) = (snd (read_u32 f5))\<lparr>next_ifd_offset := fst (read_u32 f5)\<rparr>"
    using assms(1,2,3)
    by (simp add: read_next_frame_def split_beta Let_def f0_def f2_def f3_def f5_def)
  then show ?thesis using t by simp
qed

lemma read_next_frame_stays:
  assumes "\<not> (next_ifd_offset (file p) \<noteq> 0
              \<and> (ucast (next_ifd_offset (file p)) :: 64 word) + 2 < file_size (file p))"
  shows "stream (file (snd (read_next_frame p))) = stream (file p)"
  using assms by (auto simp add: read_next_frame_def Let_def)

lemma restored_cursor:
  assumes "tellg s' = tellg s"
  shows "if bad s then bad s' else gpos s' = gpos s \<and> \<not> bad s'"
  using assms by (auto simp add: tellg_def split: if_splits)

lemma read_ifd_indirect_restores:
  assumes "read_ifd f = (d, f')" and "value_is_offset d"
    and "gpos (stream f) + 8 \<le> length (content (stream f))"
  shows "gpos (stream f') = gpos (stream f) + 12 \<and> \<not> bad (stream f')"
proof -
  have nb: "\<not> bad (stream f)"
    using bad_not_offset [of f] assms(1,2) by auto
  then have st: "stream f = \<lparr>content = content (stream f), gpos = gpos (stream f), bad = False\<rparr>"
    by (cases "stream f") simp
  from read_ifd_indirect_cursor [OF st assms(3) assms(1) assms(2)]
  show ?thesis by (auto simp add: tellg_def split: if_splits)
qed

text \<open>Claim C7, as stated: every operation that seeks the stream for scratch purposes
  leaves the stream position unchanged on return. It fails where \<open>tellg\<close> has no
  position to report. \<open>open\<close> succeeds on \<open>tiff_cut_link\<close> and leaves the stream
  failed at 140, the read of the next-IFD field having fallen short; from there
  \<open>count_frames\<close> returns with the cursor at 76 and \<open>get_sample_data\<close> returns the
  two pixels with the cursor at 10, since \<open>tellg\<close> gave -1 on entry and the closing
  \<open>seekg(pos)\<close> fails. On \<open>tiff_cut_entry\<close>, \<open>read_ifd\<close> is entered at 10 on a
  healthy stream; the file ends inside the entry's \<open>count\<close>, the entry still decodes
  as four Short values behind an offset, they are read from offset 0, and the call
  returns with the stream failed at 8.\<close>

theorem scratch_seeks_lost_on_failed_stream:
  "fst (Reader_open (Reader (Some tiff_cut_link))) = NoError
   \<and> cursor (stream (file (opened tiff_cut_link))) = (140, True)
   \<and> map_option (\<lambda>(n, p). cursor (stream (file p)))
         (Reader_count_frames (opened tiff_cut_link)) = Some (76, True)
   \<and> (case Reader_get_sample_data 0 NoError (opened tiff_cut_link) of
         Some (Returns (vs, e, p)) \<Rightarrow> Some (vs, cursor (stream (file p)))
       | _ \<Rightarrow> None) = Some ([U8 5, U8 6], 10, True)
   \<and> cursor (stream (session_at tiff_cut_entry 10)) = (10, False)
   \<and> value_is_offset (fst (read_ifd (session_at tiff_cut_entry 10)))
   \<and> cursor (stream (snd (read_ifd (session_at tiff_cut_entry 10)))) = (8, True)"
  by code_simp

text \<open>Claim C7, amended. \<open>count_frames\<close> and \<open>get_sample_data\<close>, entered with a
  stream that has not failed, return with the stream at the position of entry and not
  failed; entered with a failed stream they return with a failed stream, the cursor
  where the last scratch read left it. A directory entry decode that followed an
  offset returns with the stream not failed and 12 bytes past the entry's start,
  wherever the offset led and however much was read there, provided the first 8 bytes
  of the entry are in the file. The IFD navigator \<open>read_next_frame\<close> advances instead:
  when it decodes the directory of \<open>cnt\<close> entries at \<open>next_ifd_offset\<close> it returns
  with the stream behind the directory's link field at
  \<open>P = next_ifd_offset + 2 + 12 * cnt\<close>: at \<open>P + 4\<close> and not failed if the file holds
  the four bytes, and otherwise failed, behind those of the four bytes that the file
  holds, whatever the entries are; when it decodes nothing it leaves the stream as it
  is.\<close>

theorem scratch_seeks_restore_a_healthy_stream:
  "(Reader_count_frames p = Some (n, p1)
      \<longrightarrow> (if bad (stream (file p)) then bad (stream (file p1))
           else gpos (stream (file p1)) = gpos (stream (file p)) \<and> \<not> bad (stream (file p1))))
   \<and> (Reader_get_sample_data sample err p = Some (Returns (vs, e, p2))
      \<longrightarrow> (if bad (stream (file p)) then bad (stream (file p2))
           else gpos (stream (file p2)) = gpos (stream (file p)) \<and> \<not> bad (stream (file p2))))
   \<and> (read_ifd f = (d, f') \<and> value_is_offset d
        \<and> gpos (stream f) + 8 \<le> length (content (stream f))
      \<longrightarrow> gpos (stream f') = gpos (stream f) + 12 \<and> \<not> bad (stream f'))
   \<and> (next_ifd_offset (file q) \<noteq> 0
        \<and> (ucast (next_ifd_offset (file q)) :: 64 word) + 2 < file_size (file q)
        \<and> cnt = fst (read_u16 (seek_to_offset (next_ifd_offset (file q))
                      ((file q)\<lparr>current_frame := ReaderFrame_init\<rparr>)))
        \<and> c = content (stream (file q))
        \<and> P = unat (next_ifd_offset (file q)) + 2 + 12 * unat cnt
      \<longrightarrow> stream (file (snd (read_next_frame q)))
            = \<lparr>content = c, gpos = P + min 4 (length c - P), bad = (length c - P < 4)\<rparr>)
   \<and> (\<not> (next_ifd_offset (file q) \<noteq> 0
            \<and> (ucast (next_ifd_offset (file q)) :: 64 word) + 2 < file_size (file q))
      \<longrightarrow> stream (file (snd (read_next_frame q))) = stream (file q))"
  using restored_cursor [OF count_frames_restores [of p n p1]]
    restored_cursor [OF get_sample_data_restores [of sample err p vs e p2]]
    read_ifd_indirect_restores [of f d f'] read_next_frame_cursor [of q cnt c P]
    read_next_frame_stays [of q]
  by blast

theorem scratch_seeks_restore_a_healthy_stream_witness:
  "cursor (stream (file (opened tiff_planar))) = (98, False)
   \<and> (\<exists>n p1. Reader_count_frames (opened tiff_planar) = Some (n, p1)
          \<and> cursor (stream (file p1)) = (98, False))
   \<and> (\<exists>vs e p2. Reader_get_sample_data 1 NoError (opened tiff_planar) = Some (Returns (vs, e, p2))
          \<and> cursor (stream (file p2)) = (98, False))
   \<and> (\<exists>d f'. read_ifd (session_at tiff_hello 10) = (d, f') \<and> value_is_offset d
          \<and> cursor (stream f') = (22, False))
   \<and> next_ifd_offset (file (opened tiff_three_pages)) = 76
   \<and> stream (file (snd (read_next_frame (opened tiff_three_pages))))
       = \<lparr>content = tiff_three_pages, gpos = 142, bad = False\<rparr>
   \<and> next_ifd_offset (file (opened tiff_planar)) = 0
   \<and> stream (file (snd (read_next_frame (opened tiff_planar))))
       = stream (file (opened tiff_planar))"
proof -
  have pos: "gpos (stream (file (opened tiff_planar))) = 98"
    "\<not> bad (stream (file (opened tiff_planar)))"
    by code_simp+
  have "Reader_count_frames (opened tiff_planar) \<noteq> None"
    by code_simp
  then obtain n p1 where cf: "Reader_count_frames (opened tiff_planar) = Some (n, p1)"
    by auto
  have "returned_values (Reader_get_sample_data 1 NoError (opened tiff_planar)) \<noteq> None"
    by code_simp
  then obtain vs e p2 where
    gs: "Reader_get_sample_data 1 NoError (opened tiff_planar) = Some (Returns (vs, e, p2))"
    by (auto simp add: returned_values_def split: option.splits outcome.splits)
  obtain d f' where ri: "read_ifd (session_at tiff_hello 10) = (d, f')"
    by (cases "read_ifd (session_at tiff_hello 10)")
  have st: "gpos (stream (session_at tiff_hello 10)) = 10"
    "content (stream (session_at tiff_hello 10)) = tiff_hello"
    by (simp_all add: session_at_def)
  have len: "(10::nat) + 8 \<le> length tiff_hello"
    by (simp add: tiff_hello_def)
  have "value_is_offset (fst (read_ifd (session_at tiff_hello 10)))"
    by code_simp
  then have off: "value_is_offset d"
    by (simp add: ri)
  have nx: "next_ifd_offset (file (opened tiff_three_pages)) = 76"
    by code_simp
  have sz: "(ucast (next_ifd_offset (file (opened tiff_three_pages))) :: 64 word) + 2
              < file_size (file (opened tiff_three_pages))"
    by code_simp
  have cn: "fst (read_u16 (seek_to_offset (next_ifd_offset (file (opened tiff_three_pages)))
                  ((file (opened tiff_three_pages))\<lparr>current_frame := ReaderFrame_init\<rparr>))) = 5"
    by code_simp
  have ct: "content (stream (file (opened tiff_three_pages))) = tiff_three_pages"
    by code_simp
  have ln: "length tiff_three_pages = 212"
    by (simp add: tiff_three_pages_def)
  have n0: "next_ifd_offset (file (opened tiff_planar)) = 0"
    by code_simp
  from scratch_seeks_restore_a_healthy_stream
    [of "opened tiff_planar" n p1 1 NoError vs e p2 "session_at tiff_hello 10" d f'
      "opened tiff_three_pages" 5 tiff_three_pages 138]
    scratch_seeks_restore_a_healthy_stream
    [of "opened tiff_planar" n p1 1 NoError vs e p2 "session_at tiff_hello 10" d f'
      "opened tiff_planar" 5 tiff_three_pages 138]
    cf gs ri st len off pos nx sz cn ct ln n0
  show ?thesis by (simp add: cursor_def)
qed

subsection \<open>read\_next\_frame on an exhausted chain\<close>

text \<open>Claim C10. The public \<open>read_next_frame\<close>, called when \<open>has_next_frame()\<close> is
  false, returns \<open>NoMoreImagesInTiff\<close> and leaves the session unchanged: the current
  frame, the next-IFD offset, the stream and every other field.\<close>

theorem read_next_frame_without_next_is_identity:
  assumes "\<not> Reader_has_next_frame p"
  shows "Reader_read_next_frame p = (NoMoreImagesInTiff, p)"
  using assms by (simp add: Reader_read_next_frame_def)

theorem read_next_frame_without_next_is_identity_witness:
  "\<not> Reader_has_next_frame (opened tiff_planar)
   \<and> Reader_read_next_frame (opened tiff_planar) = (NoMoreImagesInTiff, opened tiff_planar)"
proof -
  have h: "\<not> Reader_has_next_frame (opened tiff_planar)"
    by code_simp
  from read_next_frame_without_next_is_identity [OF h] h show ?thesis
    by simp
qed


subsection \<open>The planar strategy on a window that spans two strips\<close>

lemma overlap_first: "do_ranges_overlap (0, 100) (0, 50) = Some (0, 50)"
  by (simp add: do_ranges_overlap_def)

lemma overlap_second: "do_ranges_overlap (0, 100) (50, 100) = Some (50, 100)"
  by (simp add: do_ranges_overlap_def)

lemma sint_ucast_32_64: "sint (ucast (w :: 32 word) :: 64 word) = uint w"
proof -
  have "uint w < 2 ^ 32" using uint_bounded [of w] by simp
  then have "uint w < 2 ^ 63" by simp
  moreover have "(0::int) \<le> uint w" by simp
  ultimately have "signed_take_bit 63 (uint w) = uint w"
    by (intro signed_take_bit_int_eq_self) linarith+
  then show ?thesis
    by (simp add: sint_uint uint_up_ucast is_up)
qed

lemma stream_read_length: "length (fst (stream_read n s)) \<le> n"
  by (simp add: stream_read_def Let_def)

lemma length_store_bytes:
  "i + length bs \<le> length buf \<Longrightarrow> length (store_bytes i bs buf) = length buf"
  by (simp add: store_bytes_def)

lemma stream_read_after_seek:
  assumes "unat off + n \<le> length (content st)"
  shows "stream_read n (seekg_beg (uint off) (stream_clear st))
           = (take n (drop (unat off) (content st)),
              \<lparr>content = content st, gpos = unat off + n, bad = False\<rparr>)"
proof -
  have "seekg_beg (uint off) (stream_clear st)
          = \<lparr>content = content st, gpos = unat off, bad = False\<rparr>"
    by (simp add: seekg_beg_def stream_clear_def)
  then show ?thesis
    using assms by (simp add: stream_read_def Let_def min_def)
qed

lemma content_stream_read: "content (snd (stream_read n s)) = content s"
  by (simp add: stream_read_def Let_def)


text \<open>A frame with two strips of 50 bytes at offsets 200 and 100, and a stream over a
  file made of runs of equal bytes.\<close>

definition frame_two_strips :: ReaderFrame where
  "frame_two_strips =
     ReaderFrame_init\<lparr>width := 10, height := 10, bits_per_sample := 8, strip_count := 2,
       strip_offsets := [200, 100], strip_byte_counts := [50, 50]\<rparr>"

definition stream_of_runs :: ifstream where
  "stream_of_runs =
     \<lparr>content = replicate 100 7 @ replicate 50 1 @ replicate 50 2 @ replicate 50 3,
      gpos = 0, bad = False\<rparr>"


text \<open>Claim C3. For the sample window \<open>[0, 100)\<close> and a strip table whose logical
  spans are \<open>[0, 50)\<close> and \<open>[50, 100)\<close>, the planar path reads exactly 50 bytes
  from each strip, seeking each time to the strip's file offset plus the distance of the
  intersection's start from the strip's logical start, and fills the output buffer
  contiguously: the two intersections are the strips' spans, the reads are (offset
  \<open>o1\<close>, 50 bytes, output index 0) and (offset \<open>o2\<close>, 50 bytes, output index 50),
  and when the file holds both strips the buffer is the first strip's bytes followed by
  the second's.\<close>

theorem planar_window_over_two_strips:
  assumes "strip_count fr = 2" and "strip_byte_counts fr = [50, 50]"
    and "strip_offsets fr = [o1, o2]" and "length buffer = 100"
  shows "do_ranges_overlap (0, 100) (0, 50) = Some (0, 50)
    \<and> do_ranges_overlap (0, 100) (50, 100) = Some (50, 100)
    \<and> (\<exists>buf st' e.
          planar_loop fr 0 100 0 0 0 buffer st err []
            = Returns (buf, st', e, [(uint o1 + (0 - 0), 50, 0), (uint o2 + (50 - 50), 50, 50)])
          \<and> length buf = 100
          \<and> (unat o1 + 50 \<le> length (content st) \<and> unat o2 + 50 \<le> length (content st)
               \<longrightarrow> buf = take 50 (drop (unat o1) (content st))
                            @ take 50 (drop (unat o2) (content st))
                   \<and> e = err))"
proof -
  define r1 where "r1 = stream_read 50 (seekg_beg (uint o1) (stream_clear st))"
  define buf1 where "buf1 = store_bytes 0 (fst r1) buffer"
  define e1 where "e1 = (if length (fst r1) \<noteq> 50 then StripDataLost else err)"
  define r2 where "r2 = stream_read 50 (seekg_beg (uint o2) (stream_clear (snd r1)))"
  define buf2 where "buf2 = store_bytes 50 (fst r2) buf1"
  define e2 where "e2 = (if length (fst r2) \<noteq> 50 then StripDataLost else e1)"
  have l1: "length (fst r1) \<le> 50" and l2: "length (fst r2) \<le> 50"
    by (simp_all add: r1_def r2_def stream_read_length)
  have lb1: "length buf1 = 100"
    using l1 assms(4) by (simp add: buf1_def length_store_bytes)
  have lb2: "length buf2 = 100"
    using l2 lb1 by (simp add: buf2_def length_store_bytes)
  have third: "planar_loop fr 0 100 (Suc (Suc 0)) 100 100 buf2 (snd r2) e2
                 [(uint o1, 50, 0), (uint o2, 50, 50)]
               = Returns (buf2, snd r2, e2, [(uint o1, 50, 0), (uint o2, 50, 50)])"
    by (subst planar_loop.simps) (use assms(1) in simp)
  have second: "planar_loop fr 0 100 (Suc 0) 50 50 buf1 (snd r1) e1 [(uint o1, 50, 0)]
               = Returns (buf2, snd r2, e2, [(uint o1, 50, 0), (uint o2, 50, 50)])"
    by (subst planar_loop.simps)
      (use assms(1-3) l2 lb1 third in
        \<open>simp add: overlap_second Let_def split_beta sint_ucast_32_64 r2_def [symmetric]
          buf2_def [symmetric] e2_def [symmetric]\<close>)
  have first: "planar_loop fr 0 100 0 0 0 buffer st err []
               = Returns (buf2, snd r2, e2, [(uint o1, 50, 0), (uint o2, 50, 50)])"
    by (subst planar_loop.simps)
      (use assms l1 second in
        \<open>simp add: overlap_first Let_def split_beta sint_ucast_32_64 r1_def [symmetric]
          buf1_def [symmetric] e1_def [symmetric]\<close>)
  have full: "buf2 = take 50 (drop (unat o1) (content st)) @ take 50 (drop (unat o2) (content st))
              \<and> e2 = err"
    if a: "unat o1 + 50 \<le> length (content st)" and b: "unat o2 + 50 \<le> length (content st)"
  proof -
    have r1: "r1 = (take 50 (drop (unat o1) (content st)),
                    \<lparr>content = content st, gpos = unat o1 + 50, bad = False\<rparr>)"
      unfolding r1_def by (rule stream_read_after_seek [OF a])
    have "unat o2 + 50 \<le> length (content (snd r1))"
      using b by (simp add: r1)
    from stream_read_after_seek [OF this]
    have r2: "fst r2 = take 50 (drop (unat o2) (content st))"
      by (simp add: r2_def r1)
    have n1: "length (fst r1) = 50" using a by (simp add: r1)
    have n2: "length (fst r2) = 50" using b by (simp add: r2)
    have "buf1 = fst r1 @ drop 50 buffer"
      using n1 by (simp add: buf1_def store_bytes_def)
    then have "buf2 = fst r1 @ fst r2"
      using n1 n2 assms(4) by (simp add: buf2_def store_bytes_def)
    then show ?thesis
      using n1 n2 by (simp add: r1 r2 e2_def e1_def)
  qed
  show ?thesis
    using first lb2 full by (simp add: overlap_first overlap_second)
qed

theorem planar_window_over_two_strips_witness:
  "\<exists>buf st' e.
      planar_loop frame_two_strips 0 100 0 0 0 (replicate 100 0) stream_of_runs NoError []
        = Returns (buf, st', e, [(200, 50, 0), (100, 50, 50)])
      \<and> buf = replicate 50 3 @ replicate 50 1 \<and> e = NoError"
proof -
  have a: "strip_count frame_two_strips = 2"
    and b: "strip_byte_counts frame_two_strips = [50, 50]"
    and c: "strip_offsets frame_two_strips = [200, 100]"
    by (simp_all add: frame_two_strips_def)
  have d: "length (replicate 100 (0::8 word)) = 100"
    by simp
  have e: "unat (200::32 word) + 50 \<le> length (content stream_of_runs)
           \<and> unat (100::32 word) + 50 \<le> length (content stream_of_runs)"
    by (simp add: stream_of_runs_def)
  have f: "take 50 (drop (unat (200::32 word)) (content stream_of_runs)) = replicate 50 3"
    and g: "take 50 (drop (unat (100::32 word)) (content stream_of_runs)) = replicate 50 1"
    by (simp_all add: stream_of_runs_def)
  from planar_window_over_two_strips [OF a b c d, of stream_of_runs NoError] e f g
  show ?thesis by auto
qed

subsection \<open>Counting frames\<close>

text \<open>The client loop \<open>while (reader.has_next_frame()) reader.read_next_frame()\<close>,
  counting the calls that return \<open>NoError\<close>, starting from \<open>n\<close>. The first frame of
  a file is decoded by the call of \<open>read_next_frame\<close> that \<open>open\<close> makes.\<close>

partial_function (option) read_remaining_frames :: "ReaderPrivate \<Rightarrow> nat \<Rightarrow> nat option" where
  "read_remaining_frames p n =
     (if Reader_has_next_frame p then
        (case Reader_read_next_frame p of
           (e, p') \<Rightarrow> read_remaining_frames p' (if e = NoError then Suc n else n))
      else Some n)"

declare read_remaining_frames.simps [code]

text \<open>On the three-page file \<open>count_frames\<close> reports 3; \<open>open\<close> decodes the first
  page and two calls of the public \<open>read_next_frame\<close> succeed before
  \<open>has_next_frame\<close> is false: three successful calls of \<open>read_next_frame\<close> in
  all.\<close>

lemma three_pages_counted:
  "fst (Reader_open (Reader (Some tiff_three_pages))) = NoError
   \<and> map_option fst (Reader_count_frames (opened tiff_three_pages)) = Some 3
   \<and> read_remaining_frames (opened tiff_three_pages) 0 = Some 2"
  by code_simp

text \<open>A file of three frames whose first directory, at 8, has 5462 entries, all of
  them zero (tag 0 is not a tag the reader knows): it takes \<open>2 + 12 * 5462 + 4\<close>
  bytes, so the second directory is at 65558 and the third at 65564, both empty.
  \<open>huge_session g nxt\<close> is the reader on that file with the stream at \<open>g\<close> and
  \<open>nxt\<close> as the next-IFD offset.\<close>

definition tiff_huge_directory :: "8 word list" where
  "tiff_huge_directory =
     [73, 73, 42, 0, 8, 0, 0, 0, 86, 21] @ replicate 65544 0
       @ [22, 0, 1, 0, 0, 0, 28, 0, 1, 0, 0, 0, 0, 0, 0, 0]"

definition huge_session :: "nat \<Rightarrow> 32 word \<Rightarrow> ReaderPrivate" where
  "huge_session g nxt =
      \<lparr>tiff_path = Some tiff_huge_directory,
       file = \<lparr>first_record_offset = 8, next_ifd_offset = nxt,
                system_byte_order = LittleEndian, file_byte_order = LittleEndian,
                file_size = 65570, current_frame = ReaderFrame_init,
                stream = \<lparr>content = tiff_huge_directory, gpos = g, bad = False\<rparr>\<rparr>,
       last_error = [], good = True\<rparr>"

lemma length_tiff_huge_directory: "length tiff_huge_directory = 65570"
  by (simp add: tiff_huge_directory_def)

lemma replicate4: "replicate 4 x = [x, x, x, x]"
  by (simp add: numeral_eq_Suc)

lemma tiff_huge_directory_bytes:
  "take 2 tiff_huge_directory = [73, 73]"
  "take 2 (drop 2 tiff_huge_directory) = [42, 0]"
  "take 4 (drop 4 tiff_huge_directory) = [8, 0, 0, 0]"
  "take 2 (drop 8 tiff_huge_directory) = [86, 21]"
  "take 65544 (drop 10 tiff_huge_directory) = replicate 65544 0"
  "take 4 (drop 18 tiff_huge_directory) = [0, 0, 0, 0]"
  "take 4 (drop 65554 tiff_huge_directory) = [22, 0, 1, 0]"
  "take 2 (drop 65558 tiff_huge_directory) = [0, 0]"
  "take 4 (drop 65560 tiff_huge_directory) = [28, 0, 1, 0]"
  "take 2 (drop 65564 tiff_huge_directory) = [0, 0]"
  "take 4 (drop 65566 tiff_huge_directory) = [0, 0, 0, 0]"
  by (simp_all add: tiff_huge_directory_def replicate4)

lemma read_entries_zero_rule:
  assumes "\<not> bad (stream f)"
    and "take (12 * n) (drop (gpos (stream f)) (content (stream f))) = replicate (12 * n) 0"
  shows "read_entries n f err
           = (f\<lparr>stream := \<lparr>content = content (stream f), gpos = gpos (stream f) + 12 * n,
                               bad = False\<rparr>\<rparr>, err)"
  by (rule read_entries_zero [OF _ assms(2)]) (simp add: assms(1))

lemmas io_defs = read_u8_def read_u16_def read_u32_def read_u8_as32_def read_u16_as32_def
  read_object_def stream_read_def tellg_def seekg_cur_def seekg_pos_def seekg_beg_def
  stream_clear_def seek_to_offset_def byte_swap_if_need8_def byte_swap_if_need16_def
  byte_swap_if_need32_def

lemma open_huge:
  "Reader_open (Reader (Some tiff_huge_directory)) = (NoError, huge_session 65558 65558)"
  by (simp add: Reader_open_def ReaderPrivate_open_def ReaderPrivate_open_tail_def
      read_next_frame_def Reader_def ReaderFile_init_def huge_session_def
      get_byte_order_def host_long_one_def Let_def length_tiff_huge_directory io_defs
      tiff_huge_directory_bytes read_entries_zero_rule ReaderFrame_init_def)

lemma count_frames_huge:
  "Reader_count_frames (huge_session 65558 65558) = Some (1, huge_session 65558 65558)"
  by (simp add: Reader_count_frames_def huge_session_def count_frames_loop.simps Let_def
      io_defs tiff_huge_directory_bytes length_tiff_huge_directory)

lemma read_next_frame_huge_second:
  "Reader_read_next_frame (huge_session 65558 65558) = (NoError, huge_session 65564 65564)"
  by (simp add: Reader_read_next_frame_def Reader_has_next_frame_def read_next_frame_def
      huge_session_def Let_def io_defs tiff_huge_directory_bytes length_tiff_huge_directory
      ReaderFrame_init_def)

lemma read_next_frame_huge_third:
  "Reader_read_next_frame (huge_session 65564 65564) = (NoError, huge_session 65570 0)"
  by (simp add: Reader_read_next_frame_def Reader_has_next_frame_def read_next_frame_def
      huge_session_def Let_def io_defs tiff_huge_directory_bytes length_tiff_huge_directory
      ReaderFrame_init_def)

lemma has_next_frame_huge:
  "Reader_has_next_frame (huge_session 65558 65558)"
  "Reader_has_next_frame (huge_session 65564 65564)"
  "\<not> Reader_has_next_frame (huge_session 65570 0)"
  by (simp_all add: Reader_has_next_frame_def huge_session_def)

lemma read_remaining_frames_huge:
  "read_remaining_frames (huge_session 65558 65558) 0 = Some 2"
  apply (subst read_remaining_frames.simps)
  apply (simp add: has_next_frame_huge read_next_frame_huge_second)
  apply (subst read_remaining_frames.simps)
  apply (simp add: has_next_frame_huge read_next_frame_huge_third)
  apply (subst read_remaining_frames.simps)
  apply (simp add: has_next_frame_huge)
  done

text \<open>Claim C5. For every successfully opened multi-image file, \<open>count_frames\<close>
  returns the number of \<open>read_next_frame\<close> calls that succeed before
  \<open>has_next_frame\<close> becomes false (3 for a three-page file). The code does not on
  \<open>tiff_huge_directory\<close>: \<open>open\<close> succeeds and two further calls of
  \<open>read_next_frame\<close> succeed, three frames in all, while \<open>count_frames\<close> reports 1.
  It computes the directory's size as \<open>uint16_t count = read<uint16_t>() * 12\<close>;
  \<open>5462 * 12 = 65544\<close> is truncated to 8, the four zero bytes at 18 are taken for the
  next-IFD offset, and the scan stops. \<open>read_next_frame\<close> computes the same size in
  \<open>off_t\<close> and finds the second directory at 65558.\<close>

theorem count_frames_truncates_directory_size:
  "fst (Reader_open (Reader (Some tiff_huge_directory))) = NoError
   \<and> map_option fst (Reader_count_frames (opened tiff_huge_directory)) = Some 1
   \<and> read_remaining_frames (opened tiff_huge_directory) 0 = Some 2"
  by (simp add: opened_def open_huge count_frames_huge read_remaining_frames_huge)


subsection \<open>The planar strategy stays inside the buffer\<close>

text \<open>With 32-bit operands widened to \<open>unsigned long\<close> nothing in
  \<open>do_ranges_overlap\<close> wraps around: for \<open>a \<le> b\<close> and \<open>f \<le> f'\<close> it returns the
  intersection of \<open>[a, b)\<close> and \<open>[f, f')\<close> when that is not empty.\<close>

lemma unat_ucast_32_64: "unat (ucast (w :: 32 word) :: 64 word) = unat w"
proof -
  have "unat w < 2 ^ 32" using unsigned_less [of w, where ?'a = nat] by simp
  then have "unat w < 2 ^ 64" by simp
  then show ?thesis
    by (simp add: unsigned_ucast_eq take_bit_nat_eq_self)
qed

lemma unat_32_bound: "unat (w :: 32 word) < 4294967296"
  using unsigned_less [of w, where ?'a = nat] by simp

lemma ucast_max: "(ucast (max a b :: 32 word) :: 64 word) = max (ucast a) (ucast b)"
  by (simp add: max_def word_le_nat_alt unat_ucast_32_64)

lemma ucast_min: "(ucast (min a b :: 32 word) :: 64 word) = min (ucast a) (ucast b)"
  by (simp add: min_def word_le_nat_alt unat_ucast_32_64)

lemma unat_max: "unat (max a b :: 'a::len word) = max (unat a) (unat b)"
  by (simp add: max_def word_le_nat_alt)

lemma unat_min: "unat (min a b :: 'a::len word) = min (unat a) (unat b)"
  by (simp add: min_def word_le_nat_alt)

lemma overlap_test_nat:
  fixes an bn fn fn' :: nat
  assumes "an \<le> bn" "fn \<le> fn'"
  shows "(max bn fn' - min an fn < (bn - an) + (fn' - fn)) = (max an fn < min bn fn')"
  using assms by (auto simp add: max_def min_def)

lemma do_ranges_overlap_ucast:
  fixes a b f f' :: "32 word"
  assumes "a \<le> b" "f \<le> f'"
  shows "do_ranges_overlap (ucast a, ucast b) (ucast f, ucast f') =
         (if max a f < min b f' then Some (ucast (max a f), ucast (min b f')) else None)"
proof -
  define A B F F' :: "64 word" where "A = ucast a" and "B = ucast b" and "F = ucast f" and "F' = ucast f'"
  have u: "unat A = unat a" "unat B = unat b" "unat F = unat f" "unat F' = unat f'"
    by (simp_all add: A_def B_def F_def F'_def unat_ucast_32_64)
  have le: "A \<le> B" "F \<le> F'"
    using assms by (simp_all add: word_le_nat_alt u)
  have le': "unat a \<le> unat b" "unat f \<le> unat f'"
    using assms by (simp_all add: word_le_nat_alt)
  have s1: "unat (B - A) = unat b - unat a"
    using le(1) by (simp add: unat_sub u)
  have s2: "unat (F' - F) = unat f' - unat f"
    using le(2) by (simp add: unat_sub u)
  have "unat (B - A) + unat (F' - F) < 2 ^ LENGTH(64)"
    using unat_32_bound [of b] unat_32_bound [of f'] by (simp add: s1 s2)
  then have sum: "unat ((B - A) + (F' - F)) = (unat b - unat a) + (unat f' - unat f)"
    by (simp add: unat_add_lem [THEN iffD1] s1 s2)
  have "min A F \<le> max B F'"
    using le by (simp add: word_le_nat_alt unat_max unat_min u max_def min_def)
  then have tot: "unat (max B F' - min A F) = max (unat b) (unat f') - min (unat a) (unat f)"
    by (simp add: unat_sub unat_max unat_min u)
  have key: "((B - A) + (F' - F) > max B F' - min A F) = (max a f < min b f')"
    using overlap_test_nat [OF le']
    by (simp add: word_less_nat_alt sum tot unat_max unat_min)
  show ?thesis
    using key
    by (simp add: do_ranges_overlap_def Let_def A_def B_def F_def F'_def ucast_max ucast_min)
qed

lemma ucast_diff_32_64:
  fixes x y :: "32 word"
  assumes "x \<le> y"
  shows "(ucast ((ucast y :: 64 word) - ucast x) :: 32 word) = y - x"
proof -
  have le: "(ucast x :: 64 word) \<le> ucast y"
    using assms by (simp add: word_le_nat_alt unat_ucast_32_64)
  have "unat ((ucast y :: 64 word) - ucast x) = unat y - unat x"
    using le by (simp add: unat_sub unat_ucast_32_64)
  moreover have "unat (y - x) = unat y - unat x"
    using assms by (simp add: unat_sub)
  moreover have "unat y - unat x < 2 ^ 32"
    using unat_32_bound [of y] by simp
  ultimately have "unat (ucast ((ucast y :: 64 word) - ucast x) :: 32 word) = unat (y - x)"
    by (simp add: unsigned_ucast_eq take_bit_nat_eq_self)
  then show ?thesis
    by (simp add: word_unat_eq_iff)
qed

lemma sum_take_Suc:
  assumes "i < length xs"
  shows "sum_list (map unat (take (Suc i) xs)) = sum_list (map unat (take i xs)) + unat (xs ! i)"
  using assms by (simp add: take_Suc_conv_app_nth)

lemma sum_take_le:
  "sum_list (map unat (take i xs)) \<le> sum_list (map (unat :: 32 word \<Rightarrow> nat) xs)"
proof -
  have "sum_list (map unat xs) = sum_list (map unat (take i xs)) + sum_list (map unat (drop i xs))"
    by (metis append_take_drop_id map_append sum_list_append)
  then show ?thesis by simp
qed

lemma window_step_overlap:
  fixes an bn fn sn on :: nat
  assumes "an \<le> bn" "on = min bn fn - min an fn" "max an fn < min bn (fn + sn)"
  shows "on + (min bn (fn + sn) - max an fn) = min bn (fn + sn) - min an (fn + sn)"
    and "on + (min bn (fn + sn) - max an fn) \<le> bn - an"
  using assms by (auto simp add: min_def max_def split: if_splits)

lemma window_step_skip:
  fixes an bn fn sn on :: nat
  assumes "an \<le> bn" "on = min bn fn - min an fn" "\<not> max an fn < min bn (fn + sn)" "fn \<le> bn"
  shows "on = min bn (fn + sn) - min an (fn + sn)"
  using assms by (auto simp add: min_def max_def split: if_splits)

text \<open>The invariant of the strip loop, for a window \<open>[a, b)\<close> and strip sizes that
  sum up below \<open>2^32\<close>: the logical cursor is the sum of the sizes of the strips
  passed, and the output index is the part of the window that lies below the cursor. So
  every read fits the buffer, whose length is that of the window, and the loop
  returns.\<close>

lemma sum_take_mono:
  assumes "i \<le> j"
  shows "sum_list (map unat (take i xs))
           \<le> sum_list (map (unat :: 32 word \<Rightarrow> nat) (take j xs))"
proof -
  have "take i xs = take i (take j xs)"
    using assms by (simp add: min_def)
  then show ?thesis
    using sum_take_le [of i "take j xs"] by simp
qed

lemma planar_loop_returns:
  assumes L1: "unat (strip_count fr) \<le> length (strip_byte_counts fr)"
    and L2: "unat (strip_count fr) \<le> length (strip_offsets fr)"
    and S: "sum_list (map unat (take (unat (strip_count fr)) (strip_byte_counts fr))) < 2 ^ 32"
    and W: "a \<le> b"
  shows "strip \<le> unat (strip_count fr)
    \<Longrightarrow> unat fidx = sum_list (map unat (take strip (strip_byte_counts fr)))
    \<Longrightarrow> unat oidx = min (unat b) (unat fidx) - min (unat a) (unat fidx)
    \<Longrightarrow> length buffer = unat b - unat a
    \<Longrightarrow> \<exists>buf st' e lg. planar_loop fr a b strip fidx oidx buffer st err log
                          = Returns (buf, st', e, lg)
                        \<and> length buf = length buffer"
proof (induction "unat (strip_count fr) - strip" arbitrary: strip fidx oidx buffer st err log)
  case 0
  then have "\<not> strip < unat (strip_count fr)" by simp
  then show ?case
    by (simp add: planar_loop.simps [of fr a b strip fidx oidx buffer st err log])
next
  case (Suc k)
  then have lt: "strip < unat (strip_count fr)" by simp
  have lt1: "strip < length (strip_byte_counts fr)" using lt L1 by simp
  have lt2: "strip < length (strip_offsets fr)" using lt L2 by simp
  define s where "s = strip_byte_counts fr ! strip"
  define off where "off = strip_offsets fr ! strip"
  have Wn: "unat a \<le> unat b" using W by (simp add: word_le_nat_alt)
  have sum_next: "sum_list (map unat (take (Suc strip) (strip_byte_counts fr)))
                    = unat fidx + unat s"
    using lt1 Suc.prems(2) by (simp add: sum_take_Suc s_def)
  have "Suc strip \<le> unat (strip_count fr)" using lt by simp
  then have "unat fidx + unat s < 2 ^ 32"
    using sum_next sum_take_mono [of "Suc strip" "unat (strip_count fr)" "strip_byte_counts fr"] S
    by simp
  then have fs: "unat (fidx + s) = unat fidx + unat s"
    by (simp add: unat_add_lem [THEN iffD1])
  then have fle: "fidx \<le> fidx + s"
    by (simp add: word_le_nat_alt)
  have k: "k = unat (strip_count fr) - Suc strip" using Suc.hyps(2) by simp
  have inv1: "Suc strip \<le> unat (strip_count fr)" using lt by simp
  have inv2: "unat (fidx + s) = sum_list (map unat (take (Suc strip) (strip_byte_counts fr)))"
    using sum_next fs by simp
  define x where "x = max a fidx"
  define y where "y = min b (fidx + s)"
  define c where "c = (x < y)"
  have ov: "do_ranges_overlap (ucast a, ucast b) (ucast fidx, ucast (fidx + s))
              = (if c then Some (ucast x, ucast y) else None)"
    unfolding c_def x_def y_def by (rule do_ranges_overlap_ucast [OF W fle])
  note unfold = planar_loop.simps [of fr a b strip fidx oidx buffer st err log]
  show ?case
  proof (cases c)
    case True
    define cnt where "cnt = y - x"
    have xlt: "x < y" using True by (simp only: c_def)
    have xy: "x \<le> y" using xlt by (rule less_imp_le)
    have cnt: "(ucast ((ucast y :: 64 word) - ucast x) :: 32 word) = cnt"
      unfolding cnt_def by (rule ucast_diff_32_64 [OF xy])
    have ucnt: "unat cnt = min (unat b) (unat fidx + unat s) - max (unat a) (unat fidx)"
      using xy by (simp add: cnt_def unat_sub x_def y_def unat_max unat_min fs)
    have Tn: "max (unat a) (unat fidx) < min (unat b) (unat fidx + unat s)"
      using xlt unfolding x_def y_def word_less_nat_alt unat_max unat_min fs .
    note ws = window_step_overlap [OF Wn Suc.prems(3) Tn]
    define seek where "seek = (ucast off :: 64 word) + (ucast x - ucast fidx)"
    define r where "r = stream_read (unat cnt) (seekg_beg (sint seek) (stream_clear st))"
    have lr: "length (fst r) \<le> unat cnt"
      by (simp add: r_def stream_read_length)
    have fits: "unat oidx + length (fst r) \<le> length buffer"
      using lr ws(2) ucnt Suc.prems(4) by simp
    define buf1 where "buf1 = store_bytes (unat oidx) (fst r) buffer"
    have lb1: "length buf1 = length buffer"
      using fits by (simp add: buf1_def length_store_bytes)
    have "unat oidx + unat cnt \<le> unat b"
      using ws(2) ucnt by linarith
    then have "unat oidx + unat cnt < 2 ^ 32"
      using unat_32_bound [of b] by simp
    then have oc: "unat (oidx + cnt) = unat oidx + unat cnt"
      by (simp add: unat_add_lem [THEN iffD1])
    have inv3: "unat (oidx + cnt) = min (unat b) (unat (fidx + s)) - min (unat a) (unat (fidx + s))"
      using ws(1) ucnt oc fs by simp
    have inv4: "length buf1 = unat b - unat a"
      using lb1 Suc.prems(4) by simp
    from Suc.hyps(1) [OF k inv1 inv2 inv3 inv4]
    obtain buf st' e lg where
      rec: "planar_loop fr a b (Suc strip) (fidx + s) (oidx + cnt) buf1 (snd r)
              (if length (fst r) \<noteq> unat cnt then StripDataLost else err)
              (log @ [(sint seek, unat cnt, unat oidx)]) = Returns (buf, st', e, lg)"
      and lbuf: "length buf = length buf1"
      by blast
    have "planar_loop fr a b strip fidx oidx buffer st err log
            = planar_loop fr a b (Suc strip) (fidx + s) (oidx + cnt) buf1 (snd r)
                (if length (fst r) \<noteq> unat cnt then StripDataLost else err)
                (log @ [(sint seek, unat cnt, unat oidx)])"
      using lt lt1 lt2 fits True
      by (simp add: unfold ov s_def [symmetric] off_def [symmetric] Let_def split_beta
          cnt seek_def [symmetric] r_def [symmetric]
          buf1_def [symmetric] not_less)
    then show ?thesis
      using rec lbuf lb1 by simp
  next
    case False
    show ?thesis
    proof (cases "fidx > b")
      case True
      have "planar_loop fr a b strip fidx oidx buffer st err log
              = Returns (buffer, st, err, log)"
        using lt lt1 lt2 True \<open>\<not> c\<close>
        by (simp add: unfold ov s_def [symmetric] Let_def)
      then show ?thesis by simp
    next
      case nb: False
      have Fn: "\<not> max (unat a) (unat fidx) < min (unat b) (unat fidx + unat s)"
        using False unfolding c_def x_def y_def word_less_nat_alt unat_max unat_min fs .
      have fb: "unat fidx \<le> unat b"
        using nb by (simp add: word_less_nat_alt)
      have inv3: "unat oidx = min (unat b) (unat (fidx + s)) - min (unat a) (unat (fidx + s))"
        using window_step_skip [OF Wn Suc.prems(3) Fn fb] fs by simp
      from Suc.hyps(1) [OF k inv1 inv2 inv3 Suc.prems(4)]
      obtain buf st' e lg where
        rec: "planar_loop fr a b (Suc strip) (fidx + s) oidx buffer st err log
                = Returns (buf, st', e, lg)"
        and lbuf: "length buf = length buffer"
        by blast
      have "planar_loop fr a b strip fidx oidx buffer st err log
              = planar_loop fr a b (Suc strip) (fidx + s) oidx buffer st err log"
        using lt lt1 lt2 nb False
        by (simp add: unfold ov s_def [symmetric] Let_def)
      then show ?thesis
        using rec lbuf by simp
    qed
  qed
qed

subsection \<open>What get\_sample\_data\_internal returns when the checks pass\<close>

text \<open>The six checks of \<open>get_sample_data_internal\<close>, in the source's order; the
  condition under which it enters its strip loops, and the conditions of its two
  strategies; what the first strategy needs of the strip tables (an entry for every
  strip index below \<open>strip_count\<close>, and byte counts of these strips that sum up below
  \<open>2^32\<close>); the bytes of one sample plane, and the start of a sample's window, which the
  source computes in \<open>uint32_t\<close>; and the storage width and the value of a
  \<open>variant_t\<close>.\<close>

definition preconditions_pass :: "ReaderFrame \<Rightarrow> bool" where
  "preconditions_pass fr =
     (compression fr = CompressionType_None
      \<and> \<not> is_tiled fr
      \<and> orientation fr = Orientation_Stantard
      \<and> photometric_interpertation fr \<noteq> PhotometricInterpretation_Palette
      \<and> width fr \<noteq> 0 \<and> height fr \<noteq> 0
      \<and> (bits_per_sample fr = 8 \<or> bits_per_sample fr = 16
           \<or> bits_per_sample fr = 32 \<or> bits_per_sample fr = 64))"


definition strips_present :: "ReaderFrame \<Rightarrow> bool" where
  "strips_present fr =
     (strip_count fr > 0 \<and> strip_byte_counts fr \<noteq> [] \<and> strip_offsets fr \<noteq> [])"

definition planar_strategy :: "ReaderFrame \<Rightarrow> bool" where
  "planar_strategy fr =
     (samples_per_pixel fr = 1 \<or> planar_config fr = PlanarConfiguration_Planar)"

definition chunky_strategy :: "ReaderFrame \<Rightarrow> bool" where
  "chunky_strategy fr =
     (samples_per_pixel fr > 1 \<and> planar_config fr = PlanarConfiguration_Chunky)"

definition strip_tables_cover :: "ReaderFrame \<Rightarrow> bool" where
  "strip_tables_cover fr =
     (unat (strip_count fr) \<le> length (strip_offsets fr)
      \<and> unat (strip_count fr) \<le> length (strip_byte_counts fr)
      \<and> sum_list (map unat (take (unat (strip_count fr)) (strip_byte_counts fr))) < 2 ^ 32)"

definition frame_bytes :: "ReaderFrame \<Rightarrow> nat" where
  "frame_bytes fr = unat (width fr) * unat (height fr) * unat (bits_per_sample fr) div 8"

definition window_start :: "ReaderFrame \<Rightarrow> 16 word \<Rightarrow> nat" where
  "window_start fr sample = unat sample * frame_bytes fr mod 2 ^ 32"

fun variant_bits :: "variant_t \<Rightarrow> nat" where
  "variant_bits (U8 v) = 8"
| "variant_bits (U16 v) = 16"
| "variant_bits (U32 v) = 32"
| "variant_bits (U64 v) = 64"

fun variant_value :: "variant_t \<Rightarrow> nat" where
  "variant_value (U8 v) = unat v"
| "variant_value (U16 v) = unat v"
| "variant_value (U32 v) = unat v"
| "variant_value (U64 v) = unat v"

lemma le_word_zeros: "le_word (replicate k 0) = 0"
  by (induction k) simp_all

lemma le_bytes_zero: "le_bytes k 0 = replicate k 0"
  by (induction k) simp_all

lemma byte_swap64_zero: "byte_swap64 0 = 0"
  by (simp add: byte_swap64_def)

lemma swap_elem_zeros:
  "swap_elem bps (replicate (elem_bytes bps) 0) = replicate (elem_bytes bps) 0"
  by (simp add: swap_elem_def elem_bytes_def le_word_zeros le_bytes_zero byte_swap16_zero
      byte_swap32_zero byte_swap64_zero)

lemma concat_replicate_blocks:
  "concat (map (\<lambda>x. replicate k (0::8 word)) [0..<n]) = replicate (n * k) 0"
  by (induction n) (simp_all add: replicate_add [symmetric] add.commute)

lemma swap_buffer_zeros:
  assumes "n * elem_bytes bps \<le> m"
  shows "swap_buffer bps n (replicate m 0) = Returns (replicate m 0)"
proof -
  define k where "k = elem_bytes bps"
  define f where "f = (\<lambda>x. swap_elem bps (take k (drop (x * k) (replicate m (0::8 word)))))"
  have blk: "f x = replicate k 0" if "x < n" for x
  proof -
    have "Suc x * k \<le> n * k"
      using that by (intro mult_le_mono1) simp
    then have "x * k + k \<le> m"
      using assms by (simp add: k_def)
    then have "take k (drop (x * k) (replicate m (0::8 word))) = replicate k 0"
      by (simp add: min_def)
    then show ?thesis
      unfolding f_def by (simp only: k_def swap_elem_zeros)
  qed
  have "map f [0..<n] = map (\<lambda>x. replicate k 0) [0..<n]"
    by (rule map_cong [OF refl]) (simp add: blk)
  then have c: "concat (map f [0..<n]) = replicate (n * k) 0"
    by (simp only: concat_replicate_blocks)
  have d: "drop (n * k) (replicate m (0::8 word)) = replicate (m - n * k) 0"
    by simp
  have e: "replicate (n * k) (0::8 word) @ replicate (m - n * k) 0 = replicate m 0"
    using assms by (simp add: replicate_add [symmetric] k_def)
  have "swap_buffer bps n (replicate m 0)
          = (if bps = 16 \<or> bps = 32 \<or> bps = 64 then
               (if n * k \<le> length (replicate m (0::8 word))
                then Returns (concat (map f [0..<n]) @ drop (n * k) (replicate m 0))
                else Undefined)
             else Returns (replicate m 0))"
    unfolding swap_buffer_def f_def k_def ..
  also have "\<dots> = Returns (replicate m 0)"
    using assms by (simp only: c d e) (simp add: k_def)
  finally show ?thesis .
qed

lemma chunky_loop_no_strips:
  assumes "strip_count fr = 0"
  shows "chunky_loop fr sample 0 sd lst fidx oidx buffer st err = Some (Returns (buffer, st, err))"
  by (subst chunky_loop.simps) (use assms in simp)

lemma unat_ucast_16_32: "unat (ucast (w :: 16 word) :: 32 word) = unat w"
proof -
  have "unat w < 2 ^ 16" using unsigned_less [of w, where ?'a = nat] by simp
  then have "unat w < 2 ^ 32" by simp
  then show ?thesis
    by (simp add: unsigned_ucast_eq take_bit_nat_eq_self)
qed


lemma sample_window:
  fixes sample :: "16 word" and sz :: "32 word"
  assumes "unat sample * unat sz mod 2 ^ 32 + unat sz < 2 ^ 32"
  shows "ucast sample * sz \<le> ucast sample * sz + sz"
    and "unat (ucast sample * sz + sz) - unat (ucast sample * sz) = unat sz"
proof -
  have m: "unat (ucast sample * sz :: 32 word) = unat sample * unat sz mod 2 ^ 32"
    by (simp add: unat_word_ariths(2) unat_ucast_16_32)
  have "unat (ucast sample * sz :: 32 word) + unat sz < 2 ^ 32"
    using assms by (simp only: m)
  then have a: "unat (ucast sample * sz + sz) = unat (ucast sample * sz :: 32 word) + unat sz"
    using unat_add_lem [of "ucast sample * sz" sz] by simp
  show "ucast sample * sz \<le> ucast sample * sz + sz"
    by (simp add: word_le_nat_alt a)
  show "unat (ucast sample * sz + sz) - unat (ucast sample * sz) = unat sz"
    by (simp add: a)
qed

lemma read_strips_returns:
  assumes first: "strips_present (current_frame f) \<and> planar_strategy (current_frame f)
                  \<longrightarrow> strip_tables_cover (current_frame f)
                      \<and> unat sample * unat sz mod 2 ^ 32 + unat sz < 2 ^ 32"
    and second: "\<not> strips_present (current_frame f) \<and> chunky_strategy (current_frame f)
                  \<longrightarrow> strip_count (current_frame f) = 0"
    and fit: "unat (width (current_frame f) * height (current_frame f))
                * elem_bytes (bits_per_sample (current_frame f)) \<le> unat sz"
  shows "\<exists>buf st e. read_strips f sample sz (replicate (unat sz) 0) err = Some (Returns (buf, st, e))
           \<and> length buf = unat sz
           \<and> (\<not> strips_present (current_frame f) \<longrightarrow> buf = replicate (unat sz) 0)"
proof -
  define fr where "fr = current_frame f"
  show ?thesis
  proof (cases "strips_present fr")
    case sp: True
    then have c: "strip_count fr > 0" "strip_byte_counts fr \<noteq> []" "strip_offsets fr \<noteq> []"
      by (simp_all add: strips_present_def)
    show ?thesis
    proof (cases "planar_strategy fr")
      case True
      then have ps: "samples_per_pixel fr = 1 \<or> planar_config fr = PlanarConfiguration_Planar"
        by (simp add: planar_strategy_def)
      have cover: "strip_tables_cover fr"
        and w: "unat sample * unat sz mod 2 ^ 32 + unat sz < 2 ^ 32"
        using first sp True by (simp_all add: fr_def)
      have L1: "unat (strip_count fr) \<le> length (strip_byte_counts fr)"
        and L2: "unat (strip_count fr) \<le> length (strip_offsets fr)"
        and S: "sum_list (map unat (take (unat (strip_count fr)) (strip_byte_counts fr))) < 2 ^ 32"
        using cover by (simp_all add: strip_tables_cover_def)
      note sw = sample_window [OF w]
      have i4: "length (replicate (unat sz) (0::8 word))
                  = unat (ucast sample * sz + sz) - unat (ucast sample * sz)"
        by (simp add: sw(2))
      from planar_loop_returns [OF L1 L2 S sw(1), of 0 0 0 "replicate (unat sz) 0" "stream f" err "[]"] i4
      obtain buf st' e lg where
        pl: "planar_loop fr (ucast sample * sz) (ucast sample * sz + sz) 0 0 0
               (replicate (unat sz) 0) (stream f) err [] = Returns (buf, st', e, lg)"
        and lb: "length buf = unat sz"
        by auto
      show ?thesis
        using c ps sp lb
        by (simp add: read_strips_def fr_def [symmetric] Let_def pl)
    next
      case False
      then have "\<not> (samples_per_pixel fr = 1 \<or> planar_config fr = PlanarConfiguration_Planar)"
        by (simp add: planar_strategy_def)
      then show ?thesis
        using c sp by (simp add: read_strips_def fr_def [symmetric] Let_def)
    qed
  next
    case nsp: False
    then have nc: "\<not> (strip_count fr > 0 \<and> strip_byte_counts fr \<noteq> [] \<and> strip_offsets fr \<noteq> [])"
      by (simp add: strips_present_def)
    show ?thesis
    proof (cases "chunky_strategy fr")
      case True
      then have cs: "samples_per_pixel fr > 1 \<and> planar_config fr = PlanarConfiguration_Chunky"
        by (simp add: chunky_strategy_def)
      have z: "strip_count fr = 0"
        using second nsp True by (simp add: fr_def)
      have sw: "swap_buffer (bits_per_sample fr) (unat (width fr * height fr))
                  (replicate (unat sz) 0) = Returns (replicate (unat sz) 0)"
        using fit by (intro swap_buffer_zeros) (simp add: fr_def)
      have ch: "chunky_loop fr sample 0 [] 0 0 0 (replicate (unat sz) 0) (stream f) err
                  = Some (Returns (replicate (unat sz) 0, stream f, err))"
        by (rule chunky_loop_no_strips [OF z])
      show ?thesis
        using cs z
        by (simp add: read_strips_def fr_def [symmetric] Let_def ch sw)
    next
      case False
      then have "\<not> (samples_per_pixel fr > 1 \<and> planar_config fr = PlanarConfiguration_Chunky)"
        by (simp add: chunky_strategy_def)
      then show ?thesis
        using nc by (auto simp add: read_strips_def fr_def [symmetric] Let_def)
    qed
  qed
qed

lemma buffer_elem_bits:
  assumes "bps = 8 \<or> bps = 16 \<or> bps = 32 \<or> bps = 64"
  shows "variant_bits (buffer_elem bps buf i) = unat bps"
  using assms by (auto simp add: buffer_elem_def)

lemma buffer_elem_zeros:
  "variant_value (buffer_elem bps (replicate m 0) i) = 0"
  by (simp add: buffer_elem_def le_word_zeros)

lemma elem_bytes_div:
  assumes "bps = 8 \<or> bps = 16 \<or> bps = 32 \<or> bps = 64"
  shows "elem_bytes bps = unat bps div 8" and "8 dvd unat bps" and "0 < unat bps"
  using assms by (auto simp add: elem_bytes_def)

lemma frame_sizes:
  fixes w h bps :: "32 word"
  assumes b: "bps = 8 \<or> bps = 16 \<or> bps = 32 \<or> bps = 64"
    and no: "unat w * unat h * unat bps < 2 ^ 32"
  shows "unat (w * h) = unat w * unat h"
    and "unat (w * h * bps div 8) = unat w * unat h * unat bps div 8"
    and "unat (w * h) * elem_bytes bps = unat (w * h * bps div 8)"
proof -
  have pos: "0 < unat bps" by (rule elem_bytes_div(3) [OF b])
  have "unat w * unat h * 1 \<le> unat w * unat h * unat bps"
    using pos by (intro mult_le_mono2) simp
  then have "unat w * unat h < 2 ^ 32"
    using no by linarith
  then show wh: "unat (w * h) = unat w * unat h"
    using unat_mult_lem [of w h] by simp
  have "unat (w * h) * unat bps < 2 ^ 32"
    using no by (simp add: wh)
  then have whb: "unat (w * h * bps) = unat w * unat h * unat bps"
    using unat_mult_lem [of "w * h" bps] by (simp add: wh)
  show sz: "unat (w * h * bps div 8) = unat w * unat h * unat bps div 8"
    by (simp add: unat_div whb)
  have "unat w * unat h * (unat bps div 8) = unat w * unat h * unat bps div 8"
    using elem_bytes_div(2) [OF b] by (simp add: div_mult_swap)
  then show "unat (w * h) * elem_bytes bps = unat (w * h * bps div 8)"
    by (simp add: wh sz elem_bytes_div(1) [OF b])
qed

text \<open>Three files with one directory of three entries (ImageWidth, ImageLength,
  BitsPerSample) and no strip tags: 65536 by 65536 pixels of 8 bits, 65536 by 32768
  pixels of 16 bits, and 2 by 1 pixels of 8 bits.\<close>

definition tiff_wide :: "8 word list" where
  "tiff_wide =
     [73, 73, 42, 0, 8, 0, 0, 0, 3, 0,
      0, 1, 4, 0, 1, 0, 0, 0, 0, 0, 1, 0,
      1, 1, 4, 0, 1, 0, 0, 0, 0, 0, 1, 0,
      2, 1, 3, 0, 1, 0, 0, 0, 8, 0, 0, 0,
      0, 0, 0, 0]"

definition tiff_wide16 :: "8 word list" where
  "tiff_wide16 =
     [73, 73, 42, 0, 8, 0, 0, 0, 3, 0,
      0, 1, 4, 0, 1, 0, 0, 0, 0, 0, 1, 0,
      1, 1, 4, 0, 1, 0, 0, 0, 0, 128, 0, 0,
      2, 1, 3, 0, 1, 0, 0, 0, 16, 0, 0, 0,
      0, 0, 0, 0]"

definition tiff_no_strips :: "8 word list" where
  "tiff_no_strips =
     [73, 73, 42, 0, 8, 0, 0, 0, 3, 0,
      0, 1, 4, 0, 1, 0, 0, 0, 2, 0, 0, 0,
      1, 1, 4, 0, 1, 0, 0, 0, 1, 0, 0, 0,
      2, 1, 3, 0, 1, 0, 0, 0, 8, 0, 0, 0,
      0, 0, 0, 0]"

text \<open>Files of one directory whose strip tables do not fit the frame. In
  \<open>tiff_short_table\<close> StripOffsets has one entry and StripByteCounts two. In
  \<open>tiff_wrapping_strips\<close> the byte counts are 2, \<open>2^32 - 2\<close> and 2. In
  \<open>tiff_window_wraps\<close> the frame is 256 by 256 pixels of 8 bits and the byte counts
  are \<open>2^32 - 65546\<close> and 100. \<open>tiff_chunky_offsets_only\<close> has two samples per
  pixel and a StripOffsets entry but no StripByteCounts; \<open>tiff_chunky_no_strips\<close> has
  two samples per pixel and no strip tags; \<open>tiff_offsets_only\<close> has one sample per
  pixel and a StripOffsets entry but no StripByteCounts. \<open>frame_of bytes\<close> is the
  frame that \<open>open()\<close> decodes.\<close>

definition tiff_short_table :: "8 word list" where
  "tiff_short_table =
     [73, 73, 42, 0, 8, 0, 0, 0,
      5, 0,
      0, 1, 4, 0, 1, 0, 0, 0, 2, 0, 0, 0,
      1, 1, 4, 0, 1, 0, 0, 0, 1, 0, 0, 0,
      2, 1, 3, 0, 1, 0, 0, 0, 8, 0, 0, 0,
      17, 1, 4, 0, 1, 0, 0, 0, 74, 0, 0, 0,
      23, 1, 4, 0, 2, 0, 0, 0, 74, 0, 0, 0,
      0, 0, 0, 0,
      1, 0, 0, 0, 1, 0, 0, 0]"

definition tiff_wrapping_strips :: "8 word list" where
  "tiff_wrapping_strips =
     [73, 73, 42, 0, 8, 0, 0, 0,
      5, 0,
      0, 1, 4, 0, 1, 0, 0, 0, 2, 0, 0, 0,
      1, 1, 4, 0, 1, 0, 0, 0, 1, 0, 0, 0,
      2, 1, 3, 0, 1, 0, 0, 0, 8, 0, 0, 0,
      17, 1, 4, 0, 3, 0, 0, 0, 74, 0, 0, 0,
      23, 1, 4, 0, 3, 0, 0, 0, 86, 0, 0, 0,
      0, 0, 0, 0,
      98, 0, 0, 0, 98, 0, 0, 0, 98, 0, 0, 0,
      2, 0, 0, 0, 254, 255, 255, 255, 2, 0, 0, 0,
      5, 6]"

definition tiff_window_wraps :: "8 word list" where
  "tiff_window_wraps =
     [73, 73, 42, 0, 8, 0, 0, 0,
      5, 0,
      0, 1, 4, 0, 1, 0, 0, 0, 0, 1, 0, 0,
      1, 1, 4, 0, 1, 0, 0, 0, 0, 1, 0, 0,
      2, 1, 3, 0, 1, 0, 0, 0, 8, 0, 0, 0,
      17, 1, 4, 0, 2, 0, 0, 0, 74, 0, 0, 0,
      23, 1, 4, 0, 2, 0, 0, 0, 82, 0, 0, 0,
      0, 0, 0, 0,
      74, 0, 0, 0, 74, 0, 0, 0,
      246, 255, 254, 255, 100, 0, 0, 0]"

definition tiff_chunky_offsets_only :: "8 word list" where
  "tiff_chunky_offsets_only =
     [73, 73, 42, 0, 8, 0, 0, 0,
      5, 0,
      0, 1, 4, 0, 1, 0, 0, 0, 2, 0, 0, 0,
      1, 1, 4, 0, 1, 0, 0, 0, 1, 0, 0, 0,
      2, 1, 3, 0, 1, 0, 0, 0, 8, 0, 0, 0,
      17, 1, 4, 0, 1, 0, 0, 0, 8, 0, 0, 0,
      21, 1, 3, 0, 1, 0, 0, 0, 2, 0, 0, 0,
      0, 0, 0, 0]"

definition tiff_chunky_no_strips :: "8 word list" where
  "tiff_chunky_no_strips =
     [73, 73, 42, 0, 8, 0, 0, 0,
      4, 0,
      0, 1, 4, 0, 1, 0, 0, 0, 2, 0, 0, 0,
      1, 1, 4, 0, 1, 0, 0, 0, 1, 0, 0, 0,
      2, 1, 3, 0, 1, 0, 0, 0, 8, 0, 0, 0,
      21, 1, 3, 0, 1, 0, 0, 0, 2, 0, 0, 0,
      0, 0, 0, 0]"

definition tiff_offsets_only :: "8 word list" where
  "tiff_offsets_only =
     [73, 73, 42, 0, 8, 0, 0, 0,
      4, 0,
      0, 1, 4, 0, 1, 0, 0, 0, 2, 0, 0, 0,
      1, 1, 4, 0, 1, 0, 0, 0, 1, 0, 0, 0,
      2, 1, 3, 0, 1, 0, 0, 0, 8, 0, 0, 0,
      17, 1, 4, 0, 1, 0, 0, 0, 8, 0, 0, 0,
      0, 0, 0, 0]"

definition frame_of :: "8 word list \<Rightarrow> ReaderFrame" where
  "frame_of bytes = current_frame (file (opened bytes))"

lemma tiff_wide_frame:
  "frame_of tiff_wide = ReaderFrame_init\<lparr>width := 65536, height := 65536,
     image_length := 65536, bits_per_sample := 8\<rparr>"
  by code_simp

lemma tiff_wide16_frame:
  "frame_of tiff_wide16 = ReaderFrame_init\<lparr>width := 65536, height := 32768,
     image_length := 32768, bits_per_sample := 16\<rparr>"
  by code_simp

lemma tiff_no_strips_frame:
  "frame_of tiff_no_strips = ReaderFrame_init\<lparr>width := 2, height := 1,
     image_length := 1, bits_per_sample := 8\<rparr>"
  by code_simp

lemma tiff_short_table_frame:
  "frame_of tiff_short_table = ReaderFrame_init\<lparr>width := 2, height := 1,
     image_length := 1, bits_per_sample := 8, strip_count := 2, strip_offsets := [74],
     strip_byte_counts := [1, 1]\<rparr>"
  by code_simp

lemma tiff_wrapping_strips_frame:
  "frame_of tiff_wrapping_strips = ReaderFrame_init\<lparr>width := 2, height := 1,
     image_length := 1, bits_per_sample := 8, strip_count := 3,
     strip_offsets := [98, 98, 98], strip_byte_counts := [2, 4294967294, 2]\<rparr>"
  by code_simp

lemma tiff_window_wraps_frame:
  "frame_of tiff_window_wraps = ReaderFrame_init\<lparr>width := 256, height := 256,
     image_length := 256, bits_per_sample := 8, strip_count := 2,
     strip_offsets := [74, 74], strip_byte_counts := [4294901750, 100]\<rparr>"
  by code_simp

lemma tiff_chunky_offsets_only_frame:
  "frame_of tiff_chunky_offsets_only = ReaderFrame_init\<lparr>width := 2, height := 1,
     image_length := 1, bits_per_sample := 8, samples_per_pixel := 2, strip_count := 1,
     strip_offsets := [8]\<rparr>"
  by code_simp

lemma tiff_chunky_no_strips_frame:
  "frame_of tiff_chunky_no_strips = ReaderFrame_init\<lparr>width := 2, height := 1,
     image_length := 1, bits_per_sample := 8, samples_per_pixel := 2\<rparr>"
  by code_simp

lemma tiff_offsets_only_frame:
  "frame_of tiff_offsets_only = ReaderFrame_init\<lparr>width := 2, height := 1,
     image_length := 1, bits_per_sample := 8, strip_count := 1, strip_offsets := [8]\<rparr>"
  by code_simp

lemma tiff_planar_frame:
  "frame_of tiff_planar = ReaderFrame_init\<lparr>width := 2, height := 1,
     image_length := 1, bits_per_sample := 8, samples_per_pixel := 2, planar_config := 2,
     strip_count := 2, strip_offsets := [98, 100], strip_byte_counts := [2, 2]\<rparr>"
  by code_simp

lemmas enumerator_defs = CompressionType_None_def Orientation_Stantard_def
  PhotometricInterpretation_Palette_def PlanarConfiguration_Chunky_def
  PlanarConfiguration_Planar_def

lemmas frame_preds = preconditions_pass_def strips_present_def planar_strategy_def
  chunky_strategy_def strip_tables_cover_def frame_bytes_def window_start_def
  ReaderFrame_init_def enumerator_defs

text \<open>One iteration of the strip loop that finds an overlap, and the whole call when
  the loop's behaviour is undefined.\<close>

lemma planar_loop_read_step:
  assumes "strip < unat (strip_count fr)"
    and "strip < length (strip_byte_counts fr)" and "strip < length (strip_offsets fr)"
    and "do_ranges_overlap (ucast a, ucast b)
           (ucast fidx, ucast (fidx + strip_byte_counts fr ! strip)) = Some (x, y)"
    and "(ucast (y - x) :: 32 word) = cnt"
    and "sint ((ucast (strip_offsets fr ! strip) :: 64 word) + (x - ucast fidx)) = sk"
    and "stream_read (unat cnt) (seekg_beg sk (stream_clear st)) = (bs, st2)"
  shows "planar_loop fr a b strip fidx oidx buffer st err log =
           (if unat oidx + length bs > length buffer then Undefined
            else planar_loop fr a b (strip + 1) (fidx + strip_byte_counts fr ! strip)
                   (oidx + cnt) (store_bytes (unat oidx) bs buffer) st2
                   (if length bs \<noteq> unat cnt then StripDataLost else err)
                   (log @ [(sk, unat cnt, unat oidx)]))"
  by (subst planar_loop.simps) (simp add: assms Let_def)

lemma internal_planar_undefined:
  assumes "fr = current_frame (file p)" and "preconditions_pass fr"
    and "strips_present fr" and "planar_strategy fr"
    and "sz = width fr * height fr * bits_per_sample fr div 8"
    and "planar_loop fr (ucast sample * sz) (ucast sample * sz + sz) 0 0 0
           (replicate (unat sz) 0) (stream (file p)) err [] = Undefined"
  shows "get_sample_data_internal sample err p = Some Undefined"
  using assms(2,3,4,6) unfolding assms(5)
  by (auto simp add: get_sample_data_internal_def read_strips_def Let_def assms(1) [symmetric]
      preconditions_pass_def strips_present_def planar_strategy_def)

text \<open>The strip loop on a window that wraps around: \<open>[4294901760, 0)\<close> for sample
  65535 of a frame of 65536 bytes. \<open>do_ranges_overlap\<close> reports an overlap with both
  strips; the first read is sought beyond the end of the file and stores nothing, the
  second is sought to byte 84 and stores behind the end of the buffer.\<close>

lemma window_wraps_loop:
  assumes fr: "strip_count fr = 2" "strip_offsets fr = [74, 74]"
      "strip_byte_counts fr = [4294901750, 100]"
    and buf: "length buffer = 65536"
    and st: "content st = c" "84 < length c" "length c < 4294901834"
  shows "planar_loop fr 4294901760 0 0 0 0 buffer st err [] = Undefined"
proof -
  define st1 where "st1 = seekg_beg 4294901834 (stream_clear st)"
  have r1: "stream_read 65536 (seekg_beg 4294901834 (stream_clear st)) = ([], st1\<lparr>bad := True\<rparr>)"
    using st by (simp add: st1_def stream_read_def seekg_beg_def stream_clear_def)
  have s1: "planar_loop fr 4294901760 0 0 0 0 buffer st err []
              = planar_loop fr 4294901760 0 (0 + 1) (0 + strip_byte_counts fr ! 0) (0 + 65536)
                  (store_bytes (unat (0 :: 32 word)) [] buffer) (st1\<lparr>bad := True\<rparr>)
                  (if length ([] :: 8 word list) \<noteq> unat (65536 :: 32 word)
                   then StripDataLost else err)
                  ([] @ [(4294901834, unat (65536 :: 32 word), unat (0 :: 32 word))])"
    by (subst planar_loop_read_step [where x = 4294901760 and y = 0 and cnt = 65536
          and sk = 4294901834 and bs = "[]" and ?st2.0 = "st1\<lparr>bad := True\<rparr>"])
      (simp_all add: fr do_ranges_overlap_def r1)
  obtain bs st3 where
    r2: "stream_read 65536 (seekg_beg 84 (stream_clear (st1\<lparr>bad := True\<rparr>))) = (bs, st3)"
    by (cases "stream_read 65536 (seekg_beg 84 (stream_clear (st1\<lparr>bad := True\<rparr>)))")
  have "bs = fst (stream_read 65536 (seekg_beg 84 (stream_clear (st1\<lparr>bad := True\<rparr>))))"
    by (simp add: r2)
  then have lb: "0 < length bs"
    using st by (simp add: st1_def stream_read_def seekg_beg_def stream_clear_def Let_def)
  have s2: "planar_loop fr 4294901760 0 (Suc 0) 4294901750 65536 buffer (st1\<lparr>bad := True\<rparr>) e lg
              = Undefined" for e lg
    by (subst planar_loop_read_step [where x = 4294901760 and y = 0 and cnt = 65536
          and sk = 84 and bs = bs and ?st2.0 = st3])
      (use lb in \<open>simp_all add: fr do_ranges_overlap_def r2 buf\<close>)
  show ?thesis
    by (simp add: s1 fr store_bytes_def s2)
qed

lemma window_wraps_undefined:
  "get_sample_data_internal 65535 NoError (opened tiff_window_wraps) = Some Undefined"
proof -
  define fr where "fr = frame_of tiff_window_wraps"
  have fr': "fr = current_frame (file (opened tiff_window_wraps))"
    by (simp add: fr_def frame_of_def)
  have v: "strip_count fr = 2" "strip_offsets fr = [74, 74]"
    "strip_byte_counts fr = [4294901750, 100]"
    "width fr * height fr * bits_per_sample fr div 8 = 65536"
    by (simp_all add: fr_def tiff_window_wraps_frame ReaderFrame_init_def)
  have c: "content (stream (file (opened tiff_window_wraps))) = tiff_window_wraps"
    by code_simp
  have len: "length tiff_window_wraps = 90"
    by (simp add: tiff_window_wraps_def)
  have "planar_loop fr 4294901760 0 0 0 0 (replicate 65536 0)
          (stream (file (opened tiff_window_wraps))) NoError [] = Undefined"
    by (rule window_wraps_loop [OF v(1,2,3) _ c]) (simp_all add: len)
  moreover note v(4)
  moreover have "(ucast (65535 :: 16 word) :: 32 word) * 65536 = 4294901760"
    "(4294901760 :: 32 word) + 65536 = 0" "unat (65536 :: 32 word) = 65536"
    by simp_all
  ultimately have "planar_loop fr (ucast (65535 :: 16 word) * (width fr * height fr * bits_per_sample fr div 8))
          (ucast (65535 :: 16 word) * (width fr * height fr * bits_per_sample fr div 8)
             + width fr * height fr * bits_per_sample fr div 8) 0 0 0
          (replicate (unat (width fr * height fr * bits_per_sample fr div 8)) 0)
          (stream (file (opened tiff_window_wraps))) NoError [] = Undefined"
    by (simp only:)
  then show ?thesis
    by (intro internal_planar_undefined [OF fr' _ _ _ refl])
      (simp_all add: fr_def tiff_window_wraps_frame frame_preds)
qed

text \<open>Claim C9, as stated: whenever the six checks pass, \<open>get_sample_data\<close> returns
  exactly \<open>width \<times> height\<close> elements, even when the frame has no strips. On each of
  these files \<open>open\<close> succeeds, the six checks pass, and the call does otherwise.
  \<^item> \<open>tiff_wide\<close>: no strips, \<open>width \<times> height\<close> is \<open>2^32\<close>, which is 0 in
    \<open>uint32_t\<close>; an empty vector is returned.
  \<^item> \<open>tiff_wide16\<close>: no strips, \<open>width * height * bits_per_sample / 8\<close> wraps to
    0 while \<open>width * height\<close> is \<open>2^31\<close>; the final loop reads outside the empty
    buffer.
  \<^item> \<open>tiff_short_table\<close>: \<open>strip_count\<close> is 2, there is one strip offset;
    \<open>strip_offsets.at(1)\<close> throws.
  \<^item> \<open>tiff_wrapping_strips\<close>: the byte counts sum up to \<open>2^32 + 2\<close>, the logical
    cursor wraps to 0 after the second strip, and the third strip is stored behind the
    two bytes of the buffer.
  \<^item> \<open>tiff_window_wraps\<close>, sample 65535: the window starts at \<open>2^32 - 65536\<close> and
    its end wraps to 0; the second read is stored behind the end of the buffer.
  \<^item> \<open>tiff_chunky_offsets_only\<close>: no strip byte counts at all, and the second
    strategy reads \<open>strip_byte_counts[0]\<close> of the empty vector.\<close>

theorem get_sample_data_internal_loses_pixels:
  "(preconditions_pass (frame_of tiff_wide) \<and> \<not> strips_present (frame_of tiff_wide)
      \<and> unat (width (frame_of tiff_wide)) * unat (height (frame_of tiff_wide)) = 4294967296
      \<and> returned_values (get_sample_data_internal 0 NoError (opened tiff_wide))
          = Some ([], NoError))
   \<and> (preconditions_pass (frame_of tiff_wide16) \<and> \<not> strips_present (frame_of tiff_wide16)
      \<and> unat (width (frame_of tiff_wide16)) * unat (height (frame_of tiff_wide16))
            * unat (bits_per_sample (frame_of tiff_wide16)) = 34359738368
      \<and> get_sample_data_internal 0 NoError (opened tiff_wide16) = Some Undefined)
   \<and> (preconditions_pass (frame_of tiff_short_table)
      \<and> strips_present (frame_of tiff_short_table)
      \<and> planar_strategy (frame_of tiff_short_table)
      \<and> unat (strip_count (frame_of tiff_short_table)) = 2
      \<and> length (strip_offsets (frame_of tiff_short_table)) = 1
      \<and> get_sample_data_internal 0 NoError (opened tiff_short_table) = Some Throws)
   \<and> (preconditions_pass (frame_of tiff_wrapping_strips)
      \<and> strips_present (frame_of tiff_wrapping_strips)
      \<and> planar_strategy (frame_of tiff_wrapping_strips)
      \<and> length (strip_offsets (frame_of tiff_wrapping_strips)) = 3
      \<and> length (strip_byte_counts (frame_of tiff_wrapping_strips)) = 3
      \<and> unat (strip_count (frame_of tiff_wrapping_strips)) = 3
      \<and> sum_list (map unat (strip_byte_counts (frame_of tiff_wrapping_strips))) = 4294967298
      \<and> get_sample_data_internal 0 NoError (opened tiff_wrapping_strips) = Some Undefined)
   \<and> (preconditions_pass (frame_of tiff_window_wraps)
      \<and> strips_present (frame_of tiff_window_wraps)
      \<and> planar_strategy (frame_of tiff_window_wraps)
      \<and> strip_tables_cover (frame_of tiff_window_wraps)
      \<and> window_start (frame_of tiff_window_wraps) 65535
            + frame_bytes (frame_of tiff_window_wraps) = 4294967296
      \<and> get_sample_data_internal 65535 NoError (opened tiff_window_wraps) = Some Undefined)
   \<and> (preconditions_pass (frame_of tiff_chunky_offsets_only)
      \<and> \<not> strips_present (frame_of tiff_chunky_offsets_only)
      \<and> chunky_strategy (frame_of tiff_chunky_offsets_only)
      \<and> strip_count (frame_of tiff_chunky_offsets_only) = 1
      \<and> get_sample_data_internal 0 NoError (opened tiff_chunky_offsets_only) = Some Undefined)"
proof -
  have a: "preconditions_pass (frame_of tiff_wide) \<and> \<not> strips_present (frame_of tiff_wide)
      \<and> unat (width (frame_of tiff_wide)) * unat (height (frame_of tiff_wide)) = 4294967296"
    by (simp add: tiff_wide_frame frame_preds)
  have a': "returned_values (get_sample_data_internal 0 NoError (opened tiff_wide))
              = Some ([], NoError)"
    by code_simp
  have b: "preconditions_pass (frame_of tiff_wide16) \<and> \<not> strips_present (frame_of tiff_wide16)
      \<and> unat (width (frame_of tiff_wide16)) * unat (height (frame_of tiff_wide16))
            * unat (bits_per_sample (frame_of tiff_wide16)) = 34359738368"
    by (simp add: tiff_wide16_frame frame_preds)
  have b': "get_sample_data_internal 0 NoError (opened tiff_wide16) = Some Undefined"
    using tiff_wide16_frame
    by (simp add: get_sample_data_internal_def read_strips_def buffer_to_variants_def
        elem_bytes_def frame_of_def Let_def ReaderFrame_init_def enumerator_defs)
  have c: "preconditions_pass (frame_of tiff_short_table)
      \<and> strips_present (frame_of tiff_short_table)
      \<and> planar_strategy (frame_of tiff_short_table)
      \<and> unat (strip_count (frame_of tiff_short_table)) = 2
      \<and> length (strip_offsets (frame_of tiff_short_table)) = 1"
    by (simp add: tiff_short_table_frame frame_preds)
  have c': "get_sample_data_internal 0 NoError (opened tiff_short_table) = Some Throws"
    by code_simp
  have d: "preconditions_pass (frame_of tiff_wrapping_strips)
      \<and> strips_present (frame_of tiff_wrapping_strips)
      \<and> planar_strategy (frame_of tiff_wrapping_strips)
      \<and> length (strip_offsets (frame_of tiff_wrapping_strips)) = 3
      \<and> length (strip_byte_counts (frame_of tiff_wrapping_strips)) = 3
      \<and> unat (strip_count (frame_of tiff_wrapping_strips)) = 3
      \<and> sum_list (map unat (strip_byte_counts (frame_of tiff_wrapping_strips))) = 4294967298"
    by (simp add: tiff_wrapping_strips_frame frame_preds)
  have d': "get_sample_data_internal 0 NoError (opened tiff_wrapping_strips) = Some Undefined"
    by code_simp
  have e: "preconditions_pass (frame_of tiff_window_wraps)
      \<and> strips_present (frame_of tiff_window_wraps)
      \<and> planar_strategy (frame_of tiff_window_wraps)
      \<and> strip_tables_cover (frame_of tiff_window_wraps)
      \<and> window_start (frame_of tiff_window_wraps) 65535
            + frame_bytes (frame_of tiff_window_wraps) = 4294967296"
    by (simp add: tiff_window_wraps_frame frame_preds)
  have f: "preconditions_pass (frame_of tiff_chunky_offsets_only)
      \<and> \<not> strips_present (frame_of tiff_chunky_offsets_only)
      \<and> chunky_strategy (frame_of tiff_chunky_offsets_only)
      \<and> strip_count (frame_of tiff_chunky_offsets_only) = 1"
    by (simp add: tiff_chunky_offsets_only_frame frame_preds)
  have f': "get_sample_data_internal 0 NoError (opened tiff_chunky_offsets_only)
              = Some Undefined"
    by code_simp
  show ?thesis
    using a a' b b' c c' d d' e window_wraps_undefined f f' by simp
qed

text \<open>Claim C9, amended. Whenever the six checks pass, and
  \<open>width \<times> height \<times> bits_per_sample\<close> is below \<open>2^32\<close>, and
  \<^item> for a frame with strips present that is read by the first strategy (one sample
    per pixel, or planar): both strip tables have an entry for every strip index below
    \<open>strip_count\<close>, the byte counts of these strips sum up below \<open>2^32\<close>, and the
    sample's window, which starts at \<open>sample \<times> frame_bytes\<close> modulo \<open>2^32\<close>, ends
    below \<open>2^32\<close>,
  \<^item> for a chunky frame of several samples per pixel without strips present:
    \<open>strip_count\<close> is 0,

  \<open>get_sample_data_internal\<close> returns exactly \<open>width \<times> height\<close> elements, each of
  the storage width given by \<open>bits_per_sample\<close>; when strips are not present
  (\<open>strip_count\<close> is 0 or a strip table is empty) every element is zero.\<close>

theorem get_sample_data_internal_returns_all_pixels:
  assumes fr: "fr = current_frame (file p)"
    and pre: "preconditions_pass fr"
    and no: "unat (width fr) * unat (height fr) * unat (bits_per_sample fr) < 2 ^ 32"
    and first: "strips_present fr \<and> planar_strategy fr
                \<longrightarrow> strip_tables_cover fr
                    \<and> window_start fr sample + frame_bytes fr < 2 ^ 32"
    and second: "\<not> strips_present fr \<and> chunky_strategy fr \<longrightarrow> strip_count fr = 0"
  shows "\<exists>vs e p'. get_sample_data_internal sample err p = Some (Returns (vs, e, p'))
           \<and> length vs = unat (width fr) * unat (height fr)
           \<and> (\<forall>v \<in> set vs. variant_bits v = unat (bits_per_sample fr))
           \<and> (\<not> strips_present fr \<longrightarrow> (\<forall>v \<in> set vs. variant_value v = 0))"
proof -
  define sz where "sz = width fr * height fr * bits_per_sample fr div 8"
  define n where "n = unat (width fr * height fr)"
  have b: "bits_per_sample fr = 8 \<or> bits_per_sample fr = 16
           \<or> bits_per_sample fr = 32 \<or> bits_per_sample fr = 64"
    using pre by (simp add: preconditions_pass_def)
  note fs = frame_sizes [OF b no]
  have n: "n = unat (width fr) * unat (height fr)"
    by (simp add: n_def fs(1))
  have usz: "unat sz = frame_bytes fr"
    by (simp add: sz_def fs(2) frame_bytes_def)
  have fit: "n * elem_bytes (bits_per_sample fr) = unat sz"
    by (simp add: n_def sz_def fs(3))
  have first': "strips_present (current_frame (file p)) \<and> planar_strategy (current_frame (file p))
                \<longrightarrow> strip_tables_cover (current_frame (file p))
                    \<and> unat sample * unat sz mod 2 ^ 32 + unat sz < 2 ^ 32"
    using first by (simp add: usz fr window_start_def)
  have second': "\<not> strips_present (current_frame (file p)) \<and> chunky_strategy (current_frame (file p))
                \<longrightarrow> strip_count (current_frame (file p)) = 0"
    using second by (simp add: fr)
  have fit': "unat (width (current_frame (file p)) * height (current_frame (file p)))
                * elem_bytes (bits_per_sample (current_frame (file p))) \<le> unat sz"
    using fit by (simp add: n_def fr)
  from read_strips_returns [OF first' second' fit', of err]
  obtain buf st e where
    rs: "read_strips (file p) sample sz (replicate (unat sz) 0) err = Some (Returns (buf, st, e))"
    and lb: "length buf = unat sz"
    and z: "\<not> strips_present fr \<longrightarrow> buf = replicate (unat sz) 0"
    by (auto simp add: fr)
  have bv: "buffer_to_variants (bits_per_sample fr) n buf
              = Returns (map (buffer_elem (bits_per_sample fr) buf) [0..<n])"
    using fit lb by (simp add: buffer_to_variants_def)
  define vs where "vs = map (buffer_elem (bits_per_sample fr) buf) [0..<n]"
  define p' where
    "p' = p\<lparr>file := (file p)\<lparr>stream :=
             seekg_pos (tellg (stream (file p))) (stream_clear st)\<rparr>\<rparr>"
  have pre': "compression fr = CompressionType_None" "\<not> is_tiled fr"
    "orientation fr = Orientation_Stantard"
    "photometric_interpertation fr \<noteq> PhotometricInterpretation_Palette"
    "width fr \<noteq> 0" "height fr \<noteq> 0"
    using pre by (simp_all add: preconditions_pass_def)
  have run: "get_sample_data_internal sample err p = Some (Returns (vs, NoError, p'))"
    using pre' b rs bv
    by (auto simp add: get_sample_data_internal_def fr [symmetric] Let_def sz_def [symmetric]
        n_def [symmetric] vs_def p'_def)
  have len: "length vs = unat (width fr) * unat (height fr)"
    by (simp add: vs_def n)
  have bits: "\<forall>v \<in> set vs. variant_bits v = unat (bits_per_sample fr)"
    by (auto simp add: vs_def buffer_elem_bits [OF b])
  have zero: "\<forall>v \<in> set vs. variant_value v = 0" if "\<not> strips_present fr"
    using z that by (auto simp add: vs_def buffer_elem_zeros)
  show ?thesis
    using run len bits zero by blast
qed

theorem get_sample_data_internal_returns_all_pixels_witness:
  "(\<exists>vs e p'. get_sample_data_internal 1 NoError (opened tiff_planar)
                = Some (Returns (vs, e, p'))
            \<and> length vs = 2 \<and> (\<forall>v \<in> set vs. variant_bits v = 8))
   \<and> (\<exists>vs e p'. get_sample_data_internal 0 NoError (opened tiff_chunky_no_strips)
                = Some (Returns (vs, e, p'))
            \<and> length vs = 2 \<and> (\<forall>v \<in> set vs. variant_bits v = 8)
            \<and> (\<forall>v \<in> set vs. variant_value v = 0))
   \<and> (\<exists>vs e p'. get_sample_data_internal 0 NoError (opened tiff_offsets_only)
                = Some (Returns (vs, e, p'))
            \<and> length vs = 2 \<and> (\<forall>v \<in> set vs. variant_bits v = 8)
            \<and> (\<forall>v \<in> set vs. variant_value v = 0))
   \<and> (\<exists>vs e p'. get_sample_data_internal 0 NoError (opened tiff_no_strips)
                = Some (Returns (vs, e, p'))
            \<and> length vs = 2 \<and> (\<forall>v \<in> set vs. variant_bits v = 8)
            \<and> (\<forall>v \<in> set vs. variant_value v = 0))"
proof -
  have f1: "frame_of tiff_planar = current_frame (file (opened tiff_planar))"
    and f2: "frame_of tiff_chunky_no_strips = current_frame (file (opened tiff_chunky_no_strips))"
    and f3: "frame_of tiff_offsets_only = current_frame (file (opened tiff_offsets_only))"
    and f4: "frame_of tiff_no_strips = current_frame (file (opened tiff_no_strips))"
    by (simp_all add: frame_of_def)
  have h1: "preconditions_pass (frame_of tiff_planar)"
    "unat (width (frame_of tiff_planar)) * unat (height (frame_of tiff_planar))
       * unat (bits_per_sample (frame_of tiff_planar)) < 2 ^ 32"
    "strips_present (frame_of tiff_planar) \<and> planar_strategy (frame_of tiff_planar)
       \<longrightarrow> strip_tables_cover (frame_of tiff_planar)
           \<and> window_start (frame_of tiff_planar) 1 + frame_bytes (frame_of tiff_planar) < 2 ^ 32"
    "\<not> strips_present (frame_of tiff_planar) \<and> chunky_strategy (frame_of tiff_planar)
       \<longrightarrow> strip_count (frame_of tiff_planar) = 0"
    "strips_present (frame_of tiff_planar)" "planar_strategy (frame_of tiff_planar)"
    by (simp_all add: tiff_planar_frame frame_preds)
  have h2: "preconditions_pass (frame_of tiff_chunky_no_strips)"
    "unat (width (frame_of tiff_chunky_no_strips)) * unat (height (frame_of tiff_chunky_no_strips))
       * unat (bits_per_sample (frame_of tiff_chunky_no_strips)) < 2 ^ 32"
    "strips_present (frame_of tiff_chunky_no_strips) \<and> planar_strategy (frame_of tiff_chunky_no_strips)
       \<longrightarrow> strip_tables_cover (frame_of tiff_chunky_no_strips)
           \<and> window_start (frame_of tiff_chunky_no_strips) 0
               + frame_bytes (frame_of tiff_chunky_no_strips) < 2 ^ 32"
    "\<not> strips_present (frame_of tiff_chunky_no_strips) \<and> chunky_strategy (frame_of tiff_chunky_no_strips)
       \<longrightarrow> strip_count (frame_of tiff_chunky_no_strips) = 0"
    "\<not> strips_present (frame_of tiff_chunky_no_strips)"
    "chunky_strategy (frame_of tiff_chunky_no_strips)"
    by (simp_all add: tiff_chunky_no_strips_frame frame_preds)
  have h3: "preconditions_pass (frame_of tiff_offsets_only)"
    "unat (width (frame_of tiff_offsets_only)) * unat (height (frame_of tiff_offsets_only))
       * unat (bits_per_sample (frame_of tiff_offsets_only)) < 2 ^ 32"
    "strips_present (frame_of tiff_offsets_only) \<and> planar_strategy (frame_of tiff_offsets_only)
       \<longrightarrow> strip_tables_cover (frame_of tiff_offsets_only)
           \<and> window_start (frame_of tiff_offsets_only) 0
               + frame_bytes (frame_of tiff_offsets_only) < 2 ^ 32"
    "\<not> strips_present (frame_of tiff_offsets_only) \<and> chunky_strategy (frame_of tiff_offsets_only)
       \<longrightarrow> strip_count (frame_of tiff_offsets_only) = 0"
    "\<not> strips_present (frame_of tiff_offsets_only)"
    by (simp_all add: tiff_offsets_only_frame frame_preds)
  have h4: "preconditions_pass (frame_of tiff_no_strips)"
    "unat (width (frame_of tiff_no_strips)) * unat (height (frame_of tiff_no_strips))
       * unat (bits_per_sample (frame_of tiff_no_strips)) < 2 ^ 32"
    "strips_present (frame_of tiff_no_strips) \<and> planar_strategy (frame_of tiff_no_strips)
       \<longrightarrow> strip_tables_cover (frame_of tiff_no_strips)
           \<and> window_start (frame_of tiff_no_strips) 0
               + frame_bytes (frame_of tiff_no_strips) < 2 ^ 32"
    "\<not> strips_present (frame_of tiff_no_strips) \<and> chunky_strategy (frame_of tiff_no_strips)
       \<longrightarrow> strip_count (frame_of tiff_no_strips) = 0"
    "\<not> strips_present (frame_of tiff_no_strips)"
    by (simp_all add: tiff_no_strips_frame frame_preds)
  have w: "unat (width (frame_of tiff_planar)) * unat (height (frame_of tiff_planar)) = 2"
    "unat (bits_per_sample (frame_of tiff_planar)) = 8"
    "unat (width (frame_of tiff_chunky_no_strips)) * unat (height (frame_of tiff_chunky_no_strips)) = 2"
    "unat (bits_per_sample (frame_of tiff_chunky_no_strips)) = 8"
    "unat (width (frame_of tiff_offsets_only)) * unat (height (frame_of tiff_offsets_only)) = 2"
    "unat (bits_per_sample (frame_of tiff_offsets_only)) = 8"
    "unat (width (frame_of tiff_no_strips)) * unat (height (frame_of tiff_no_strips)) = 2"
    "unat (bits_per_sample (frame_of tiff_no_strips)) = 8"
    by (simp_all add: tiff_planar_frame tiff_chunky_no_strips_frame tiff_offsets_only_frame
        tiff_no_strips_frame ReaderFrame_init_def)
  from get_sample_data_internal_returns_all_pixels [OF f1 h1(1,2,3,4), of NoError]
    get_sample_data_internal_returns_all_pixels [OF f2 h2(1,2,3,4), of NoError]
    get_sample_data_internal_returns_all_pixels [OF f3 h3(1,2,3,4), of NoError]
    get_sample_data_internal_returns_all_pixels [OF f4 h4(1,2,3,4), of NoError]
  show ?thesis
    unfolding w using h1(5) h2(5) h3(5) h4(5) by blast
qed

end
